theory Spec2Isabelle
  imports Complex_Main
begin

section \<open>Strings of the JavaScript runtime\<close>

text \<open>
  A JavaScript string is modelled as a \<^typ>\<open>string\<close> whose characters are the code points
  U+0000 to U+00FF (ISO-8859-1).  On this range the runtime's white space (the class
  \<^verbatim>\<open>\s\<close> of regular expressions and the characters removed by \<^verbatim>\<open>trim\<close>) is
  TAB, LF, VT, FF, CR, SPACE and NO-BREAK SPACE, and \<^verbatim>\<open>toLowerCase\<close> maps
  A-Z and the letters U+00C0-U+00DE (except the multiplication sign U+00D7) 32 places up.
\<close>

definition isWhiteSpace :: "char \<Rightarrow> bool" where
  "isWhiteSpace c = (of_char c \<in> {9, 10, 11, 12, 13, 32, 160 :: nat})"

definition isDigit :: "char \<Rightarrow> bool" where
  "isDigit c = (48 \<le> (of_char c :: nat) \<and> (of_char c :: nat) \<le> 57)"

definition lowerChar :: "char \<Rightarrow> char" where
  "lowerChar c =
     (let n = (of_char c :: nat)
      in if (65 \<le> n \<and> n \<le> 90) \<or> (192 \<le> n \<and> n \<le> 222 \<and> n \<noteq> 215)
         then char_of (n + 32) else c)"

definition toLowerCase :: "string \<Rightarrow> string" where
  "toLowerCase s = map lowerChar s"

definition trimStart :: "string \<Rightarrow> string" where
  "trimStart s = dropWhile isWhiteSpace s"

definition trimEnd :: "string \<Rightarrow> string" where
  "trimEnd s = rev (dropWhile isWhiteSpace (rev s))"

definition trim :: "string \<Rightarrow> string" where
  "trim s = trimEnd (trimStart s)"

fun startsWith :: "string \<Rightarrow> string \<Rightarrow> bool" where
  "startsWith s [] = True"
| "startsWith [] (p # ps) = False"
| "startsWith (c # cs) (p # ps) = (c = p \<and> startsWith cs ps)"

fun includesStr :: "string \<Rightarrow> string \<Rightarrow> bool" where
  "includesStr [] sub = (sub = [])"
| "includesStr (c # cs) sub = (startsWith (c # cs) sub \<or> includesStr cs sub)"

section \<open>Display name of a dialect-B transaction\<close>

text \<open>
  \<^verbatim>\<open>s.replace(/^TST-\s*/i, '')\<close> and its three siblings of
  \<^verbatim>\<open>convertAibToAppTransaction\<close>: when the string starts with the prefix, in any
  letter case, the prefix and the white space after it are removed; otherwise the string
  is unchanged.  The prefix is given in lower case.
\<close>

definition stripPrefixCI :: "string \<Rightarrow> string \<Rightarrow> string" where
  "stripPrefixCI p s =
     (if length p \<le> length s \<and> toLowerCase (take (length p) s) = p
      then dropWhile isWhiteSpace (drop (length p) s) else s)"

text \<open>
  \<^verbatim>\<open>s.replace(/\*{2}\d{4}\s*/g, '')\<close>: every leftmost non-overlapping occurrence of two
  asterisks and four digits, with the white space that follows, is removed.
\<close>

definition maskedAt :: "string \<Rightarrow> bool" where
  "maskedAt s =
     (6 \<le> length s \<and> take 2 s = ''**'' \<and> list_all isDigit (take 4 (drop 2 s)))"

function removeMaskedCards :: "string \<Rightarrow> string" where
  "removeMaskedCards [] = []"
| "removeMaskedCards (c # cs) =
     (if maskedAt (c # cs)
      then removeMaskedCards (dropWhile isWhiteSpace (drop 6 (c # cs)))
      else c # removeMaskedCards cs)"
  by pat_completeness auto
termination
proof (relation "measure length")
  show "wf (measure length)" by simp
next
  fix c :: char and cs :: string
  assume "maskedAt (c # cs)"
  have "length (dropWhile isWhiteSpace (drop 6 (c # cs))) \<le> length (drop 6 (c # cs))"
    by (rule length_dropWhile_le)
  then show "(dropWhile isWhiteSpace (drop 6 (c # cs)), c # cs) \<in> measure length"
    by simp
next
  fix c :: char and cs :: string
  show "(cs, c # cs) \<in> measure length" by simp
qed

text \<open>\<^verbatim>\<open>s.replace(/\*+$/, '')\<close>: the run of asterisks at the end of the string is removed.\<close>

definition stripTrailingAsterisks :: "string \<Rightarrow> string" where
  "stripTrailingAsterisks s = rev (dropWhile (\<lambda>c. c = CHR ''*'') (rev s))"

text \<open>The \<^verbatim>\<open>cleanDisplayName\<close> chain of \<^verbatim>\<open>convertAibToAppTransaction\<close> (csvParser.ts).\<close>

definition cleanDisplayName :: "string \<Rightarrow> string" where
  "cleanDisplayName title =
     trim (stripTrailingAsterisks (removeMaskedCards
       (stripPrefixCI ''vdc-'' (stripPrefixCI ''vdp-'' (stripPrefixCI ''d/d''
         (stripPrefixCI ''tst-'' title))))))"

text \<open>\<^verbatim>\<open>displayName: cleanDisplayName || title\<close>.\<close>

definition displayName :: "string \<Rightarrow> string" where
  "displayName title = (if cleanDisplayName title = [] then title else cleanDisplayName title)"

text \<open>
  The import screen (app/import/aib/paste.tsx) converts the same records with its own copy
  of the clean-up, in which the four prefix removals and a \<^verbatim>\<open>trim\<close> are repeated in a
  \<^verbatim>\<open>while (cleanDisplayName !== previousDisplayName)\<close> loop before the masked card
  numbers and the trailing asterisks are removed.
\<close>

definition stripNoisePrefixes :: "string \<Rightarrow> string" where
  "stripNoisePrefixes s =
     trim (stripPrefixCI ''vdc-'' (stripPrefixCI ''vdp-'' (stripPrefixCI ''d/d''
       (stripPrefixCI ''tst-'' s))))"

lemma length_dropWhile_fixed:
  "length (dropWhile P xs) = length xs \<Longrightarrow> dropWhile P xs = xs"
  by (metis append_eq_conv_conj append_self_conv2 length_0_conv length_takeWhile_le
      diff_is_0_eq' length_drop length_dropWhile_le takeWhile_dropWhile_id
      add_diff_cancel_right' length_append)

text \<open>
  Termination of the loop: each pass either leaves the string as it is or makes it shorter.
\<close>

definition shrinking :: "(string \<Rightarrow> string) \<Rightarrow> bool" where
  "shrinking f = (\<forall>s. length (f s) \<le> length s \<and> (length (f s) = length s \<longrightarrow> f s = s))"

lemma shrinking_comp: "shrinking f \<Longrightarrow> shrinking g \<Longrightarrow> shrinking (\<lambda>s. f (g s))"
  unfolding shrinking_def by (metis le_antisym le_trans)

lemma shrinking_dropWhile: "shrinking (dropWhile P)"
  unfolding shrinking_def using length_dropWhile_le length_dropWhile_fixed by blast

lemma shrinking_trimEnd: "shrinking trimEnd"
proof -
  have "length (trimEnd s) \<le> length s" for s
    unfolding trimEnd_def using length_dropWhile_le [of isWhiteSpace "rev s"] by simp
  moreover have "trimEnd s = s" if "length (trimEnd s) = length s" for s
  proof -
    from that have "length (dropWhile isWhiteSpace (rev s)) = length (rev s)"
      by (simp add: trimEnd_def)
    then have "dropWhile isWhiteSpace (rev s) = rev s" by (rule length_dropWhile_fixed)
    then show ?thesis by (simp add: trimEnd_def)
  qed
  ultimately show ?thesis unfolding shrinking_def by blast
qed

lemma shrinking_trim: "shrinking trim"
proof -
  have "shrinking (\<lambda>s. trimEnd (trimStart s))"
    using shrinking_trimEnd shrinking_dropWhile [of isWhiteSpace]
    unfolding trimStart_def [abs_def] by (rule shrinking_comp)
  then show ?thesis by (simp add: trim_def [abs_def])
qed

lemma shrinking_stripPrefixCI: "shrinking (stripPrefixCI p)"
proof -
  have "length (stripPrefixCI p s) \<le> length s" for s
  proof -
    have "length (dropWhile isWhiteSpace (drop (length p) s)) \<le> length (drop (length p) s)"
      by (rule length_dropWhile_le)
    then have "length (dropWhile isWhiteSpace (drop (length p) s)) \<le> length s" by simp
    then show ?thesis by (simp add: stripPrefixCI_def)
  qed
  moreover have "stripPrefixCI p s = s" if "length (stripPrefixCI p s) = length s" for s
  proof (cases "length p \<le> length s \<and> toLowerCase (take (length p) s) = p")
    case False
    then show ?thesis unfolding stripPrefixCI_def by (simp only: if_False)
  next
    case True
    with that have eq: "length (dropWhile isWhiteSpace (drop (length p) s)) = length s"
      by (simp add: stripPrefixCI_def)
    have "length (dropWhile isWhiteSpace (drop (length p) s)) \<le> length s - length p"
      using length_dropWhile_le [of isWhiteSpace "drop (length p) s"] by simp
    with eq True have "length p = 0" by arith
    with eq have "length (dropWhile isWhiteSpace s) = length s" by simp
    then have "dropWhile isWhiteSpace s = s" by (rule length_dropWhile_fixed)
    with \<open>length p = 0\<close> show ?thesis by (simp add: stripPrefixCI_def)
  qed
  ultimately show ?thesis unfolding shrinking_def by blast
qed

lemma shrinking_stripNoisePrefixes: "shrinking stripNoisePrefixes"
proof -
  note step = shrinking_comp [OF shrinking_stripPrefixCI]
  have "shrinking (\<lambda>s. trim (stripPrefixCI ''vdc-'' (stripPrefixCI ''vdp-''
          (stripPrefixCI ''d/d'' (stripPrefixCI ''tst-'' s)))))"
    by (rule shrinking_comp [OF shrinking_trim step [OF step [OF step [OF shrinking_stripPrefixCI]]]])
  then show ?thesis by (simp add: stripNoisePrefixes_def [abs_def])
qed

text \<open>
  \<^verbatim>\<open>while (cleanDisplayName !== previousDisplayName) { previousDisplayName = cleanDisplayName;
  cleanDisplayName = ... }\<close>, started with \<^verbatim>\<open>previousDisplayName = ''\<close>.
\<close>

function stripUntilFixed :: "string \<Rightarrow> string \<Rightarrow> string" where
  "stripUntilFixed cleanName previousName =
     (if cleanName \<noteq> previousName
      then stripUntilFixed (stripNoisePrefixes cleanName) cleanName
      else cleanName)"
  by pat_completeness auto
termination
proof (relation "measure (\<lambda>(c, p). 2 * length c + (if c \<noteq> p then 1 else 0))")
  show "wf (measure (\<lambda>(c, p). 2 * length c + (if c \<noteq> p then 1 else 0)))" by simp
next
  fix cleanName previousName :: string
  assume "cleanName \<noteq> previousName"
  have le: "length (stripNoisePrefixes cleanName) \<le> length cleanName"
    and fixed: "length (stripNoisePrefixes cleanName) = length cleanName
        \<Longrightarrow> stripNoisePrefixes cleanName = cleanName"
    using shrinking_stripNoisePrefixes unfolding shrinking_def by blast+
  show "((stripNoisePrefixes cleanName, cleanName), (cleanName, previousName))
        \<in> measure (\<lambda>(c, p). 2 * length c + (if c \<noteq> p then 1 else 0))"
  proof (cases "stripNoisePrefixes cleanName = cleanName")
    case True
    with \<open>cleanName \<noteq> previousName\<close> show ?thesis by simp
  next
    case False
    with le fixed have "length (stripNoisePrefixes cleanName) < length cleanName"
      by (meson le_neq_implies_less)
    with \<open>cleanName \<noteq> previousName\<close> show ?thesis by simp
  qed
qed


declare stripUntilFixed.simps [simp del]

definition pasteDisplayName :: "string \<Rightarrow> string" where
  "pasteDisplayName title =
     (let cleaned = trim (stripTrailingAsterisks (removeMaskedCards (stripUntilFixed title [])))
      in if cleaned = [] then title else cleaned)"

text \<open>
  C6.  The specification has the display name computed by removing the noise prefixes again
  and again until nothing changes.  \<^verbatim>\<open>convertAibToAppTransaction\<close> applies each of the
  four removals once, in the order TST-, D/D, VDP-, VDC-: for the title \<^verbatim>\<open>VDP-TST-Shop\<close>
  it returns \<^verbatim>\<open>TST-Shop\<close>, which still carries a noise prefix, while the copy of the
  clean-up in the import screen returns \<^verbatim>\<open>Shop\<close>.
\<close>

theorem displayName_stacked_prefixes:
  "displayName ''VDP-TST-Shop'' = ''TST-Shop'' \<and> pasteDisplayName ''VDP-TST-Shop'' = ''Shop''"
  by code_simp

section \<open>Format detection (csvDetector.ts)\<close>

text \<open>Line feed and carriage return.\<close>

definition LF :: char where "LF = CHR 0x0A"
definition CR :: char where "CR = CHR 0x0D"

text \<open>
  \<^verbatim>\<open>s.split(sep)\<close> for a one-character separator: the pieces between the separators, in
  order; a string without the separator gives one piece.
\<close>

fun splitOn :: "char \<Rightarrow> string \<Rightarrow> string list" where
  "splitOn sep [] = [[]]"
| "splitOn sep (c # cs) =
     (if c = sep then [] # splitOn sep cs
      else (case splitOn sep cs of [] \<Rightarrow> [[c]] | w # ws \<Rightarrow> (c # w) # ws))"

datatype CSVProvider = aib | revolut | unknown

text \<open>\<^verbatim>\<open>/^\d{1,2}\/\d{1,2}\/\d{2,4}$/.test(col)\<close>.\<close>

definition datePattern :: "string \<Rightarrow> bool" where
  "datePattern col =
     (case splitOn (CHR ''/'') col of
        [d, m, y] \<Rightarrow>
          list_all isDigit d \<and> 1 \<le> length d \<and> length d \<le> 2 \<and>
          list_all isDigit m \<and> 1 \<le> length m \<and> length m \<le> 2 \<and>
          list_all isDigit y \<and> 2 \<le> length y \<and> length y \<le> 4
      | _ \<Rightarrow> False)"

text \<open>
  \<^verbatim>\<open>lines.find(line => line.trim().length > 0)\<close> on the lines of the trimmed content.
\<close>

definition headerLine :: "string \<Rightarrow> string option" where
  "headerLine csvContent =
     find (\<lambda>line. length (trim line) > 0) (splitOn LF (trim csvContent))"

definition aibHeader :: "string \<Rightarrow> bool" where
  "aibHeader headerLower =
     (includesStr headerLower ''posted transactions'' \<or>
      includesStr headerLower ''posted account'' \<or>
      (includesStr headerLower ''debit'' \<and> includesStr headerLower ''credit'' \<and>
       includesStr headerLower ''balance''))"

definition revolutHeader :: "string \<Rightarrow> bool" where
  "revolutHeader headerLower =
     ((includesStr headerLower ''type'' \<and> includesStr headerLower ''product'' \<and>
       includesStr headerLower ''state'') \<or>
      (includesStr headerLower ''started date'' \<and> includesStr headerLower ''completed date'') \<or>
      (includesStr headerLower ''amount'' \<and> includesStr headerLower ''fee'' \<and>
       includesStr headerLower ''currency'' \<and> includesStr headerLower ''state''))"

definition structureGuess :: "string list \<Rightarrow> CSVProvider" where
  "structureGuess lines =
     (if length lines > 1 then
        (let columns = map trim (splitOn (CHR '','') (lines ! 1))
         in if length columns \<ge> 10 then revolut
            else if length columns \<ge> 4 \<and> length columns \<le> 7
                 then (if list_ex datePattern columns then aib else unknown)
                 else unknown)
      else unknown)"

definition detectCSVProvider :: "string \<Rightarrow> CSVProvider" where
  "detectCSVProvider csvContent =
     (if csvContent = [] \<or> length (trim csvContent) = 0 then unknown
      else
        (let lines = splitOn LF (trim csvContent)
         in if length lines = 0 then unknown
            else (case headerLine csvContent of
                    None \<Rightarrow> unknown
                  | Some header \<Rightarrow>
                      (let headerLower = toLowerCase header
                       in if aibHeader headerLower then aib
                          else if revolutHeader headerLower then revolut
                          else structureGuess lines))))"

text \<open>The three files of the specification's format-detection property.\<close>

definition revolutSample :: string where
  "revolutSample =
     ''Type,Product,Started Date,Completed Date,Description,Amount,Fee,Currency,State,Balance''"

definition aibSample :: string where
  "aibSample = ''Date,Description,Debit,Credit,Balance''"

definition fallbackSample :: string where
  "fallbackSample = ''Date,Amount'' @ [LF] @ ''05/01/2024,Shop,-5.00,100.00''"


lemma trim_Nil: "trim [] = []"
  by (simp add: trim_def trimEnd_def trimStart_def)

lemma splitOn_not_Nil: "splitOn sep s \<noteq> []"
  by (induction s) (auto split: list.splits)

lemma headerLine_nonblank:
  assumes "headerLine c = Some h"
  shows "c \<noteq> [] \<and> length (trim c) \<noteq> 0"
proof -
  have "trim c \<noteq> []"
  proof
    assume "trim c = []"
    then have "headerLine c = None"
      by (simp add: headerLine_def trim_Nil)
    with assms show False by simp
  qed
  moreover have "c \<noteq> []"
  proof
    assume "c = []"
    then have "trim c = []" by (simp add: trim_Nil)
    with \<open>trim c \<noteq> []\<close> show False by simp
  qed
  ultimately show ?thesis by simp
qed

lemma detectCSVProvider_by_header:
  assumes "headerLine c = Some h"
  shows "detectCSVProvider c =
           (if aibHeader (toLowerCase h) then aib
            else if revolutHeader (toLowerCase h) then revolut
            else structureGuess (splitOn LF (trim c)))"
  using assms headerLine_nonblank [OF assms]
  by (simp add: detectCSVProvider_def splitOn_not_Nil)

lemma detectCSVProvider_samples:
  "detectCSVProvider revolutSample = revolut"
  "detectCSVProvider aibSample = aib"
  "detectCSVProvider fallbackSample = aib"
  by code_simp+

text \<open>
  C7.  For a file whose first non-blank line is \<open>h\<close>: the dialect-B fingerprint decides
  first, the dialect-A fingerprint second, and only then the shape of the second line, where
  4 to 7 comma-separated columns with a field of the form \<^verbatim>\<open>d{1,2}/d{1,2}/d{2,4}\<close> give
  dialect B.  The three sample files are classified as dialect A, dialect B and dialect B.
\<close>

theorem detectCSVProvider_order:
  assumes "headerLine c = Some h"
  shows "(aibHeader (toLowerCase h) \<longrightarrow> detectCSVProvider c = aib) \<and>
         (\<not> aibHeader (toLowerCase h) \<and> revolutHeader (toLowerCase h)
            \<longrightarrow> detectCSVProvider c = revolut) \<and>
         (\<not> aibHeader (toLowerCase h) \<and> \<not> revolutHeader (toLowerCase h) \<and>
          1 < length (splitOn LF (trim c)) \<and>
          4 \<le> length (splitOn (CHR '','') (splitOn LF (trim c) ! 1)) \<and>
          length (splitOn (CHR '','') (splitOn LF (trim c) ! 1)) \<le> 7 \<and>
          list_ex datePattern (map trim (splitOn (CHR '','') (splitOn LF (trim c) ! 1)))
            \<longrightarrow> detectCSVProvider c = aib) \<and>
         detectCSVProvider revolutSample = revolut \<and>
         detectCSVProvider aibSample = aib \<and>
         detectCSVProvider fallbackSample = aib"
  by (simp add: detectCSVProvider_by_header [OF assms] detectCSVProvider_samples
        structureGuess_def Let_def)

theorem detectCSVProvider_order_witness:
  "headerLine fallbackSample = Some ''Date,Amount'' \<and>
   \<not> aibHeader (toLowerCase ''Date,Amount'') \<and>
   \<not> revolutHeader (toLowerCase ''Date,Amount'') \<and>
   1 < length (splitOn LF (trim fallbackSample)) \<and>
   length (splitOn (CHR '','') (splitOn LF (trim fallbackSample) ! 1)) = 4 \<and>
   list_ex datePattern (map trim (splitOn (CHR '','') (splitOn LF (trim fallbackSample) ! 1))) \<and>
   detectCSVProvider fallbackSample = aib"
proof -
  have h: "headerLine fallbackSample = Some ''Date,Amount''" by code_simp
  have side: "\<not> aibHeader (toLowerCase ''Date,Amount'')"
    "\<not> revolutHeader (toLowerCase ''Date,Amount'')"
    "1 < length (splitOn LF (trim fallbackSample))"
    "length (splitOn (CHR '','') (splitOn LF (trim fallbackSample) ! 1)) = 4"
    "list_ex datePattern (map trim (splitOn (CHR '','') (splitOn LF (trim fallbackSample) ! 1)))"
    by code_simp+
  from detectCSVProvider_order [OF h] side have "detectCSVProvider fallbackSample = aib"
    by simp
  with h side show ?thesis by simp
qed


section \<open>Numbers of the JavaScript runtime\<close>

text \<open>
  A JavaScript number is modelled as not-a-number, an infinity, or an exact rational: the
  binary rounding of IEEE doubles, overflow and the sign of zero are not modelled.
  \<^verbatim>\<open>parseFloat\<close> reads the longest prefix of the form sign, digits, fraction, exponent
  (or \<^verbatim>\<open>Infinity\<close>) after leading white space, and \<^verbatim>\<open>Math.round\<close> rounds halves up.
\<close>

datatype number = NaN | Fin rat | PosInf | NegInf

definition isNaN :: "number \<Rightarrow> bool" where
  "isNaN n = (n = NaN)"

fun numAbs :: "number \<Rightarrow> number" where
  "numAbs NaN = NaN"
| "numAbs (Fin r) = Fin \<bar>r\<bar>"
| "numAbs PosInf = PosInf"
| "numAbs NegInf = PosInf"

fun numNeg :: "number \<Rightarrow> number" where
  "numNeg NaN = NaN"
| "numNeg (Fin r) = Fin (- r)"
| "numNeg PosInf = NegInf"
| "numNeg NegInf = PosInf"

fun ltZero :: "number \<Rightarrow> bool" where
  "ltZero (Fin r) = (r < 0)"
| "ltZero NegInf = True"
| "ltZero n = False"

fun times100 :: "number \<Rightarrow> number" where
  "times100 (Fin r) = Fin (r * 100)"
| "times100 n = n"

fun mathRound :: "number \<Rightarrow> number" where
  "mathRound (Fin r) = Fin (of_int \<lfloor>r + 1 / 2\<rfloor>)"
| "mathRound n = n"

definition digitVal :: "char \<Rightarrow> int" where
  "digitVal c = of_char c - 48"

definition digitsVal :: "string \<Rightarrow> int" where
  "digitsVal ds = foldl (\<lambda>acc c. 10 * acc + digitVal c) 0 ds"

definition pow10 :: "int \<Rightarrow> rat" where
  "pow10 e = (if 0 \<le> e then 10 ^ nat e else 1 / 10 ^ nat (- e))"

definition exponentPart :: "string \<Rightarrow> int" where
  "exponentPart r =
     (case r of
        [] \<Rightarrow> 0
      | c # r' \<Rightarrow>
          if c = CHR ''e'' \<or> c = CHR ''E'' then
            (let negative = (r' \<noteq> [] \<and> hd r' = CHR ''-'');
                 ds = (if r' \<noteq> [] \<and> (hd r' = CHR ''-'' \<or> hd r' = CHR ''+'') then tl r' else r');
                 digits = takeWhile isDigit ds
             in if digits = [] then 0
                else if negative then - digitsVal digits else digitsVal digits)
          else 0)"

definition parseFloat :: "string \<Rightarrow> number" where
  "parseFloat s =
     (let t = trimStart s;
          negative = (t \<noteq> [] \<and> hd t = CHR ''-'');
          u = (if t \<noteq> [] \<and> (hd t = CHR ''-'' \<or> hd t = CHR ''+'') then tl t else t)
      in if startsWith u ''Infinity'' then (if negative then NegInf else PosInf)
         else
           (let intDigits = takeWhile isDigit u;
                r1 = dropWhile isDigit u;
                hasDot = (r1 \<noteq> [] \<and> hd r1 = CHR ''.'');
                fracDigits = (if hasDot then takeWhile isDigit (tl r1) else []);
                r2 = (if hasDot then dropWhile isDigit (tl r1) else r1)
            in if intDigits = [] \<and> fracDigits = [] then NaN
               else
                 (let mantissa = of_int (digitsVal intDigits)
                        + of_int (digitsVal fracDigits) / 10 ^ length fracDigits;
                      v = mantissa * pow10 (exponentPart r2)
                  in Fin (if negative then - v else v))))"


section \<open>The CSV tokenizer (csvParser.ts)\<close>

definition DQ :: char where "DQ = CHR 0x22"

fun parseCSVLoop :: "string \<Rightarrow> string list \<Rightarrow> string \<Rightarrow> bool \<Rightarrow> string list" where
  "parseCSVLoop [] result current insideQuotes = result @ [current]"
| "parseCSVLoop (c # rest) result current insideQuotes =
     (if c = DQ then
        (case rest of
           [] \<Rightarrow> parseCSVLoop rest result current (\<not> insideQuotes)
         | nextChar # rest' \<Rightarrow>
             if insideQuotes \<and> nextChar = DQ
             then parseCSVLoop rest' result (current @ [DQ]) insideQuotes
             else parseCSVLoop rest result current (\<not> insideQuotes))
      else if c = CHR '','' \<and> \<not> insideQuotes
           then parseCSVLoop rest (result @ [current]) [] insideQuotes
           else parseCSVLoop rest result (current @ [c]) insideQuotes)"

definition parseCSVLine :: "string \<Rightarrow> string list" where
  "parseCSVLine line = parseCSVLoop line [] [] False"

section \<open>Row parsers (csvParser.ts)\<close>

datatype error = Error string

record SkippedRow =
  line :: nat
  reason :: string

datatype 'a row = Parsed 'a | Skipped string

text \<open>\<^verbatim>\<open>l.replace(/\r$/, '')\<close> and the lines of a file.\<close>

definition stripCR :: "string \<Rightarrow> string" where
  "stripCR l = (if l \<noteq> [] \<and> last l = CR then butlast l else l)"

definition csvLines :: "string \<Rightarrow> string list" where
  "csvLines csvContent = map stripCR (splitOn LF csvContent)"

text \<open>
  \<^verbatim>\<open>fields[idx]\<close>: the element, or \<^verbatim>\<open>undefined\<close> outside the array.
\<close>

definition fieldAt :: "string list \<Rightarrow> int \<Rightarrow> string option" where
  "fieldAt flds idx =
     (if 0 \<le> idx \<and> nat idx < length flds then Some (flds ! nat idx) else None)"

text \<open>
  \<^verbatim>\<open>idx >= 0 ? fields[idx]?.trim() || ifEmpty : ifAbsent\<close>.
\<close>

definition pick :: "string list \<Rightarrow> int \<Rightarrow> string \<Rightarrow> string \<Rightarrow> string" where
  "pick flds idx ifEmpty ifAbsent =
     (if idx \<ge> 0 then
        (case fieldAt flds idx of
           None \<Rightarrow> ifEmpty
         | Some f \<Rightarrow> if trim f = [] then ifEmpty else trim f)
      else ifAbsent)"

subsection \<open>Dialect A\<close>

record RevolutTransaction =
  rev_type :: string
  rev_product :: string
  rev_startedDate :: string
  rev_completedDate :: string
  rev_description :: string
  rev_payer :: string
  rev_payee :: string
  rev_amount :: number
  rev_fee :: number
  rev_currency :: string
  rev_state :: string
  rev_balance :: string

record RevolutParseResult =
  rev_transactions :: "RevolutTransaction list"
  rev_skipped :: nat
  rev_totalRows :: nat
  rev_skippedDetails :: "SkippedRow list"

record RevolutColumns =
  typeIdx :: int
  productIdx :: int
  startedDateIdx :: int
  completedDateIdx :: int
  descriptionIdx :: int
  amountIdx :: int
  feeIdx :: int
  currencyIdx :: int
  stateIdx :: int
  balanceIdx :: int

text \<open>
  \<^verbatim>\<open>headerFields.forEach((header, index) => columnMap.set(header.trim().toLowerCase(), index))\<close>:
  a later column replaces an earlier one of the same name.
\<close>

definition columnMap :: "string list \<Rightarrow> (string \<rightharpoonup> nat)" where
  "columnMap headerFields =
     foldl (\<lambda>m (header, index). m(toLowerCase (trim header) \<mapsto> index)) Map.empty
       (zip headerFields [0..<length headerFields])"

fun getColumnIndex :: "(string \<rightharpoonup> nat) \<Rightarrow> string list \<Rightarrow> int" where
  "getColumnIndex cm [] = - 1"
| "getColumnIndex cm (name # names) =
     (case cm (toLowerCase name) of
        Some idx \<Rightarrow> int idx
      | None \<Rightarrow> getColumnIndex cm names)"

definition revolutColumns :: "string list \<Rightarrow> RevolutColumns" where
  "revolutColumns headerFields =
     (let cm = columnMap headerFields
      in \<lparr> typeIdx = getColumnIndex cm [''type''],
           productIdx = getColumnIndex cm [''product''],
           startedDateIdx = getColumnIndex cm [''started date'', ''started'', ''date''],
           completedDateIdx = getColumnIndex cm [''completed date'', ''completed''],
           descriptionIdx = getColumnIndex cm [''description'', ''desc''],
           amountIdx = getColumnIndex cm [''amount''],
           feeIdx = getColumnIndex cm [''fee''],
           currencyIdx = getColumnIndex cm [''currency''],
           stateIdx = getColumnIndex cm [''state'', ''status''],
           balanceIdx = getColumnIndex cm [''balance''] \<rparr>)"

text \<open>
  The body of the row loop of \<^verbatim>\<open>parseRevolutCSV\<close>.  Nothing inside its
  \<^verbatim>\<open>try\<close> block can throw (every array read is guarded by \<^verbatim>\<open>?.\<close>, and
  \<^verbatim>\<open>parseFloat\<close> and \<^verbatim>\<open>trim\<close> are total), so the \<^verbatim>\<open>catch\<close> branch with the reason
  \<^verbatim>\<open>Parse error\<close> is never taken and has no counterpart here.
\<close>

definition revolutRow :: "RevolutColumns \<Rightarrow> string \<Rightarrow> RevolutTransaction row" where
  "revolutRow cols rawLine =
     (let ln = trim rawLine
      in if ln = [] then Skipped ''Empty line''
         else
           (let flds = parseCSVLine ln
            in if length flds < 3 then Skipped ''Not enough columns''
               else
                 (let amount = (if amountIdx cols \<ge> 0
                                then parseFloat (pick flds (amountIdx cols) ''0'' ''0'')
                                else Fin 0)
                  in if isNaN amount then Skipped ''Invalid amount''
                     else Parsed
                       \<lparr> rev_type = pick flds (typeIdx cols) [] [],
                         rev_product = pick flds (productIdx cols) [] [],
                         rev_startedDate = pick flds (startedDateIdx cols) [] [],
                         rev_completedDate = pick flds (completedDateIdx cols) [] [],
                         rev_description = pick flds (descriptionIdx cols) [] [],
                         rev_payer = [],
                         rev_payee = [],
                         rev_amount = amount,
                         rev_fee = (if feeIdx cols \<ge> 0
                                    then parseFloat (pick flds (feeIdx cols) ''0'' ''0'')
                                    else Fin 0),
                         rev_currency = pick flds (currencyIdx cols) ''GBP'' ''GBP'',
                         rev_state = pick flds (stateIdx cols) [] [],
                         rev_balance = pick flds (balanceIdx cols) [] [] \<rparr>)))"

text \<open>
  The loop \<^verbatim>\<open>for (let i = 1; i < lines.length; i++)\<close>: the remaining lines, the index
  \<open>i\<close> of the first of them, and the three accumulators.
\<close>

fun rowLoop :: "(string \<Rightarrow> 'a row) \<Rightarrow> string list \<Rightarrow> nat
    \<Rightarrow> 'a list \<times> nat \<times> SkippedRow list \<Rightarrow> 'a list \<times> nat \<times> SkippedRow list" where
  "rowLoop body [] i acc = acc"
| "rowLoop body (l # ls) i (transactions, skipped, skippedDetails) =
     (case body l of
        Skipped why \<Rightarrow>
          rowLoop body ls (i + 1)
            (transactions, skipped + 1, skippedDetails @ [\<lparr> line = i + 1, reason = why \<rparr>])
      | Parsed t \<Rightarrow>
          rowLoop body ls (i + 1) (transactions @ [t], skipped, skippedDetails))"

definition parseRevolutCSV :: "string \<Rightarrow> error + RevolutParseResult" where
  "parseRevolutCSV csvContent =
     (let lines = csvLines csvContent
      in if length lines < 2 then Inl (Error ''CSV file is empty or invalid'')
         else
           (let cols = revolutColumns (parseCSVLine (lines ! 0))
            in if amountIdx cols = - 1 then Inl (Error ''CSV must contain 'Amount' column'')
               else
                 (case rowLoop (revolutRow cols) (tl lines) 1 ([], 0, []) of
                    (transactions, skipped, skippedDetails) \<Rightarrow>
                      Inr \<lparr> rev_transactions = transactions,
                            rev_skipped = skipped,
                            rev_totalRows = max 0 (length lines - 1),
                            rev_skippedDetails = skippedDetails \<rparr>)))"


subsection \<open>Dialect B\<close>

record AibTransaction =
  aib_date :: string
  aib_description :: string
  aib_amount :: number
  aib_currency :: string
  aib_balance :: string
  aib_product :: string

record AibParseResult =
  aib_transactions :: "AibTransaction list"
  aib_skipped :: nat
  aib_totalRows :: nat
  aib_skippedDetails :: "SkippedRow list"

record AibColumns =
  dateIdx :: int
  descIdx :: int
  aibAmountIdx :: int
  debitIdx :: int
  creditIdx :: int
  aibCurrencyIdx :: int
  aibBalanceIdx :: int
  aibProductIdx :: int

text \<open>\<^verbatim>\<open>xs.findIndex(p)\<close>: the first position where \<open>p\<close> holds, or \<open>-1\<close>.\<close>

fun findIndex :: "('a \<Rightarrow> bool) \<Rightarrow> 'a list \<Rightarrow> int" where
  "findIndex p [] = - 1"
| "findIndex p (x # xs) =
     (if p x then 0 else (let r = findIndex p xs in if r = - 1 then - 1 else r + 1))"

text \<open>
  The alias lookup of \<^verbatim>\<open>parseAibCSV\<close>: for each alias in turn, a header equal to it,
  else a header containing it.
\<close>

fun aibColumnIndex :: "string list \<Rightarrow> string list \<Rightarrow> int" where
  "aibColumnIndex normalizedHeaders [] = - 1"
| "aibColumnIndex normalizedHeaders (alias # aliases) =
     (let exactIdx = findIndex (\<lambda>h. h = toLowerCase alias) normalizedHeaders
      in if exactIdx \<noteq> - 1 then exactIdx
         else
           (let containsIdx = findIndex (\<lambda>h. includesStr h (toLowerCase alias)) normalizedHeaders
            in if containsIdx \<noteq> - 1 then containsIdx
               else aibColumnIndex normalizedHeaders aliases))"

definition dateAliases :: "string list" where
  "dateAliases = [''date'', ''transaction date'', ''value date'', ''posting date'',
                  ''posted date'', ''posted transactions date'']"

definition amountAliases :: "string list" where
  "amountAliases = [''amount'', ''transaction amount'']"

definition debitAliases :: "string list" where
  "debitAliases = [''debit'', ''withdrawal'', ''debit amount'', ''debit eur'']"

definition creditAliases :: "string list" where
  "creditAliases = [''credit'', ''lodgement'', ''credit amount'', ''credit eur'']"

text \<open>
  The header of \<^verbatim>\<open>parseAibCSV\<close>.  Its first step removes a leading byte-order mark
  U+FEFF, a character outside the modelled range, so that step changes no modelled string.
\<close>

definition aibColumns :: "string list \<Rightarrow> AibColumns" where
  "aibColumns headerFields =
     (let normalizedHeaders = map (\<lambda>h. toLowerCase (trim h)) headerFields
      in \<lparr> dateIdx = aibColumnIndex normalizedHeaders dateAliases,
           descIdx = aibColumnIndex normalizedHeaders
             [''description'', ''details'', ''narrative'', ''info'', ''reference''],
           aibAmountIdx = aibColumnIndex normalizedHeaders amountAliases,
           debitIdx = aibColumnIndex normalizedHeaders debitAliases,
           creditIdx = aibColumnIndex normalizedHeaders creditAliases,
           aibCurrencyIdx = aibColumnIndex normalizedHeaders [''currency'', ''ccy''],
           aibBalanceIdx = aibColumnIndex normalizedHeaders
             [''balance'', ''running balance'', ''balance eur''],
           aibProductIdx = aibColumnIndex normalizedHeaders
             [''account'', ''account name'', ''account type'', ''account product''] \<rparr>)"

text \<open>\<^verbatim>\<open>s.replace(/,/g, '')\<close>.\<close>

definition removeCommas :: "string \<Rightarrow> string" where
  "removeCommas s = filter (\<lambda>c. c \<noteq> CHR '','') s"

text \<open>
  \<^verbatim>\<open>fields[idx] && fields[idx].trim()\<close> as a condition: the field is present and not blank.
\<close>

definition nonBlankAt :: "string list \<Rightarrow> int \<Rightarrow> bool" where
  "nonBlankAt flds idx =
     (case fieldAt flds idx of None \<Rightarrow> False | Some f \<Rightarrow> f \<noteq> [] \<and> trim f \<noteq> [])"

text \<open>
  \<^verbatim>\<open>parseFloat(fields[idx].trim().replace(/,/g, ''))\<close>, read only where the field is known
  to be present.
\<close>

definition numericField :: "string list \<Rightarrow> int \<Rightarrow> number" where
  "numericField flds idx = parseFloat (removeCommas (trim (the (fieldAt flds idx))))"

text \<open>
  The amount of a dialect-B row (lines 527 to 545): the variable \<^verbatim>\<open>amount\<close> starts at 0
  and is assigned by up to three consecutive \<^verbatim>\<open>if\<close> statements.
\<close>

definition afterDebit :: "AibColumns \<Rightarrow> string list \<Rightarrow> number" where
  "afterDebit cols flds =
     (if debitIdx cols \<ge> 0 \<and> nonBlankAt flds (debitIdx cols) then
        (let debit = numericField flds (debitIdx cols)
         in if \<not> isNaN debit \<and> debit \<noteq> Fin 0 then numNeg (numAbs debit) else Fin 0)
      else Fin 0)"

definition afterCredit :: "AibColumns \<Rightarrow> string list \<Rightarrow> number" where
  "afterCredit cols flds =
     (let amount = afterDebit cols flds
      in if amount = Fin 0 \<and> creditIdx cols \<ge> 0 \<and> nonBlankAt flds (creditIdx cols) then
           (let credit = numericField flds (creditIdx cols)
            in if \<not> isNaN credit \<and> credit \<noteq> Fin 0 then numAbs credit else amount)
         else amount)"

definition aibRowAmount :: "AibColumns \<Rightarrow> string list \<Rightarrow> number" where
  "aibRowAmount cols flds =
     (let amount = afterCredit cols flds
      in if amount = Fin 0 \<and> aibAmountIdx cols \<ge> 0 \<and>
            (case fieldAt flds (aibAmountIdx cols) of None \<Rightarrow> False | Some f \<Rightarrow> f \<noteq> [])
         then numericField flds (aibAmountIdx cols)
         else amount)"

text \<open>
  The body of the row loop of \<^verbatim>\<open>parseAibCSV\<close>; as in dialect A nothing inside the
  \<^verbatim>\<open>try\<close> block can throw.
\<close>

definition aibRow :: "AibColumns \<Rightarrow> string \<Rightarrow> AibTransaction row" where
  "aibRow cols rawLine =
     (let ln = trim rawLine
      in if ln = [] then Skipped ''Empty line''
         else
           (let flds = parseCSVLine ln
            in if length flds < 2 then Skipped ''Not enough columns''
               else
                 (let amount = aibRowAmount cols flds
                  in if isNaN amount then Skipped ''Invalid amount''
                     else Parsed
                       \<lparr> aib_date = pick flds (dateIdx cols) [] [],
                         aib_description = pick flds (descIdx cols) [] [],
                         aib_amount = amount,
                         aib_currency = pick flds (aibCurrencyIdx cols) ''EUR'' ''EUR'',
                         aib_balance = pick flds (aibBalanceIdx cols) [] [],
                         aib_product = pick flds (aibProductIdx cols) [] ''AIB'' \<rparr>)))"

definition parseAibCSV :: "string \<Rightarrow> error + AibParseResult" where
  "parseAibCSV csvContent =
     (let lines = csvLines csvContent
      in if length lines < 2 then Inl (Error ''CSV file is empty or invalid'')
         else
           (let cols = aibColumns (parseCSVLine (lines ! 0))
            in if dateIdx cols = - 1 \<or>
                  (aibAmountIdx cols = - 1 \<and> debitIdx cols = - 1 \<and> creditIdx cols = - 1)
               then Inl (Error ''CSV must contain date and amount (or debit/credit) columns'')
               else
                 (case rowLoop (aibRow cols) (tl lines) 1 ([], 0, []) of
                    (transactions, skipped, skippedDetails) \<Rightarrow>
                      Inr \<lparr> aib_transactions = transactions,
                            aib_skipped = skipped,
                            aib_totalRows = max 0 (length lines - 1),
                            aib_skippedDetails = skippedDetails \<rparr>)))"

text \<open>
  Lines 577 and 578 of \<^verbatim>\<open>convertAibToAppTransaction\<close> (the same two lines open
  \<^verbatim>\<open>convertRevolutToAppTransaction\<close>): the kind and the amount in minor units.
\<close>

datatype kind = income | expense

definition isExpense :: "number \<Rightarrow> bool" where
  "isExpense amount = ltZero amount"

definition amountInCents :: "number \<Rightarrow> number" where
  "amountInCents amount = mathRound (times100 (numAbs amount))"

definition kindOf :: "number \<Rightarrow> kind" where
  "kindOf amount = (if isExpense amount then expense else income)"


lemma length_splitOn: "length (splitOn sep s) = Suc (length (filter (\<lambda>c. c = sep) s))"
  by (induction s) (auto split: list.splits)

lemma few_lines_iff: "length (csvLines c) < 2 \<longleftrightarrow> LF \<notin> set c"
proof -
  have "length (csvLines c) < 2 \<longleftrightarrow> filter (\<lambda>x. x = LF) c = []"
    by (auto simp add: csvLines_def length_splitOn)
  also have "\<dots> \<longleftrightarrow> LF \<notin> set c"
    by (auto simp add: filter_empty_conv)
  finally show ?thesis .
qed

lemma foldl_upd_None:
  "foldl (\<lambda>m (h, i). m(g h \<mapsto> i)) m ps k = None \<longleftrightarrow> m k = None \<and> k \<notin> g ` fst ` set ps"
  by (induction ps arbitrary: m) (auto split: if_splits)

lemma columnMap_None:
  "columnMap headerFields k = None \<longleftrightarrow> k \<notin> set (map (\<lambda>h. toLowerCase (trim h)) headerFields)"
proof -
  have "fst ` set (zip headerFields [0..<length headerFields]) = set headerFields"
    by (metis length_upt map_fst_zip minus_nat.diff_0 set_map)
  then show ?thesis
    unfolding columnMap_def
    by (simp add: foldl_upd_None [where g = "\<lambda>h. toLowerCase (trim h)"] image_image)
qed

lemma getColumnIndex_missing:
  "getColumnIndex cm names = - 1 \<longleftrightarrow> (\<forall>n \<in> set names. cm (toLowerCase n) = None)"
  by (induction names) (auto split: option.splits)

lemma findIndex_ge: "- 1 \<le> findIndex p xs"
  by (induction xs) (auto simp add: Let_def)

lemma findIndex_missing: "findIndex p xs = - 1 \<longleftrightarrow> (\<forall>x \<in> set xs. \<not> p x)"
proof (induction xs)
  case Nil
  then show ?case by simp
next
  case (Cons x xs)
  have "findIndex p xs + 1 \<noteq> - 1" using findIndex_ge [of p xs] by arith
  with Cons show ?case by (auto simp add: Let_def)
qed

lemma startsWith_refl: "startsWith s s"
  by (induction s) auto

lemma includesStr_refl: "includesStr s s"
  by (cases s) (auto simp add: startsWith_refl)

lemma aibColumnIndex_missing:
  "aibColumnIndex hs aliases = - 1 \<longleftrightarrow>
     (\<forall>a \<in> set aliases. \<forall>h \<in> set hs. \<not> includesStr h (toLowerCase a))"
proof (induction aliases)
  case Nil
  then show ?case by simp
next
  case (Cons a aliases)
  have "findIndex (\<lambda>h. h = toLowerCase a) hs = - 1"
    if "\<forall>h \<in> set hs. \<not> includesStr h (toLowerCase a)"
    using that includesStr_refl by (auto simp add: findIndex_missing)
  with Cons show ?case
    by (auto simp add: Let_def findIndex_missing)
qed


lemma aliases_lower_case:
  "\<forall>a \<in> set (dateAliases @ amountAliases @ debitAliases @ creditAliases). toLowerCase a = a"
  by code_simp

lemma aibColumnIndex_lower:
  assumes "\<forall>a \<in> set aliases. toLowerCase a = a"
  shows "aibColumnIndex hs aliases = - 1 \<longleftrightarrow> (\<forall>a \<in> set aliases. \<forall>h \<in> set hs. \<not> includesStr h a)"
  using assms by (simp add: aibColumnIndex_missing)

lemma revolut_amount_missing:
  "amountIdx (revolutColumns headerFields) = - 1 \<longleftrightarrow>
     ''amount'' \<notin> set (map (\<lambda>h. toLowerCase (trim h)) headerFields)"
proof -
  have low: "toLowerCase ''amount'' = ''amount''" by code_simp
  have 1: "amountIdx (revolutColumns headerFields) =
          getColumnIndex (columnMap headerFields) [''amount'']"
    by (simp add: revolutColumns_def Let_def del: getColumnIndex.simps)
  have 2: "getColumnIndex (columnMap headerFields) [''amount''] = - 1
       \<longleftrightarrow> columnMap headerFields ''amount'' = None"
    unfolding getColumnIndex_missing using low by simp
  show ?thesis unfolding 1 2 columnMap_None ..
qed

lemma parseRevolutCSV_throws:
  "(\<exists>e. parseRevolutCSV c = Inl e) \<longleftrightarrow>
     length (csvLines c) < 2 \<or> amountIdx (revolutColumns (parseCSVLine (csvLines c ! 0))) = - 1"
  by (auto simp add: parseRevolutCSV_def Let_def split: prod.splits)

lemma parseAibCSV_throws:
  "(\<exists>e. parseAibCSV c = Inl e) \<longleftrightarrow>
     length (csvLines c) < 2 \<or> dateIdx (aibColumns (parseCSVLine (csvLines c ! 0))) = - 1 \<or>
     (aibAmountIdx (aibColumns (parseCSVLine (csvLines c ! 0))) = - 1 \<and>
      debitIdx (aibColumns (parseCSVLine (csvLines c ! 0))) = - 1 \<and>
      creditIdx (aibColumns (parseCSVLine (csvLines c ! 0))) = - 1)"
  by (auto simp add: parseAibCSV_def Let_def split: prod.splits)

lemma aib_columns_missing:
  fixes headerFields :: "string list"
  defines "hs \<equiv> map (\<lambda>h. toLowerCase (trim h)) headerFields"
  shows "dateIdx (aibColumns headerFields) = - 1 \<longleftrightarrow>
           (\<forall>a \<in> set dateAliases. \<forall>h \<in> set hs. \<not> includesStr h a)"
    and "aibAmountIdx (aibColumns headerFields) = - 1 \<longleftrightarrow>
           (\<forall>a \<in> set amountAliases. \<forall>h \<in> set hs. \<not> includesStr h a)"
    and "debitIdx (aibColumns headerFields) = - 1 \<longleftrightarrow>
           (\<forall>a \<in> set debitAliases. \<forall>h \<in> set hs. \<not> includesStr h a)"
    and "creditIdx (aibColumns headerFields) = - 1 \<longleftrightarrow>
           (\<forall>a \<in> set creditAliases. \<forall>h \<in> set hs. \<not> includesStr h a)"
  using aliases_lower_case
  by (simp_all add: aibColumns_def Let_def hs_def aibColumnIndex_lower)

lemma rowLoop_counts:
  "rowLoop body ls i (txs, sk, det) = (txs', sk', det') \<Longrightarrow>
     length txs' + sk' = length txs + sk + length ls \<and> length det' + sk = length det + sk'"
proof (induction ls arbitrary: i txs sk det)
  case Nil
  then show ?case by simp
next
  case (Cons l ls)
  show ?case
  proof (cases "body l")
    case (Parsed t)
    with Cons.prems have "rowLoop body ls (i + 1) (txs @ [t], sk, det) = (txs', sk', det')"
      by simp
    from Cons.IH [OF this] show ?thesis by simp
  next
    case (Skipped w)
    with Cons.prems
    have "rowLoop body ls (i + 1) (txs, sk + 1, det @ [\<lparr>line = i + 1, reason = w\<rparr>])
            = (txs', sk', det')"
      by simp
    from Cons.IH [OF this] show ?thesis by simp
  qed
qed

lemma rowLoop_details_sound:
  "rowLoop body ls i (txs, sk, det) = (txs', sk', det') \<Longrightarrow> d \<in> set det' \<Longrightarrow>
     d \<in> set det \<or> (\<exists>k < length ls. line d = i + k + 1 \<and> body (ls ! k) = Skipped (reason d))"
proof (induction ls arbitrary: i txs sk det)
  case Nil
  then show ?case by simp
next
  case (Cons l ls)
  show ?case
  proof (cases "body l")
    case (Parsed t)
    with Cons.prems have "rowLoop body ls (i + 1) (txs @ [t], sk, det) = (txs', sk', det')"
      by simp
    from Cons.IH [OF this Cons.prems(2)]
    show ?thesis by (auto intro: exI [of _ "Suc k" for k])
  next
    case (Skipped w)
    with Cons.prems
    have "rowLoop body ls (i + 1) (txs, sk + 1, det @ [\<lparr>line = i + 1, reason = w\<rparr>])
            = (txs', sk', det')"
      by simp
    from Cons.IH [OF this Cons.prems(2)]
    consider "d \<in> set det" | "d = \<lparr>line = i + 1, reason = w\<rparr>"
      | k where "k < length ls" "line d = i + 1 + k + 1" "body (ls ! k) = Skipped (reason d)"
      by auto
    then show ?thesis
    proof cases
      case 1
      then show ?thesis by simp
    next
      case 2
      with Skipped have "0 < length (l # ls) \<and> line d = i + 0 + 1
          \<and> body ((l # ls) ! 0) = Skipped (reason d)"
        by simp
      then show ?thesis by blast
    next
      case 3
      then have "Suc k < length (l # ls) \<and> line d = i + Suc k + 1
          \<and> body ((l # ls) ! Suc k) = Skipped (reason d)"
        by simp
      then show ?thesis by blast
    qed
  qed
qed

lemma rowLoop_details_complete:
  "rowLoop body ls i (txs, sk, det) = (txs', sk', det') \<Longrightarrow>
     set det \<subseteq> set det' \<and>
     (\<forall>k < length ls. \<forall>w. body (ls ! k) = Skipped w \<longrightarrow> \<lparr>line = i + k + 1, reason = w\<rparr> \<in> set det')"
proof (induction ls arbitrary: i txs sk det)
  case Nil
  then show ?case by simp
next
  case (Cons l ls)
  show ?case
  proof (cases "body l")
    case (Parsed t)
    with Cons.prems have "rowLoop body ls (i + 1) (txs @ [t], sk, det) = (txs', sk', det')"
      by simp
    from Cons.IH [OF this] Parsed show ?thesis
      by (auto simp add: nth_Cons split: nat.splits)
  next
    case (Skipped w)
    with Cons.prems
    have "rowLoop body ls (i + 1) (txs, sk + 1, det @ [\<lparr>line = i + 1, reason = w\<rparr>])
            = (txs', sk', det')"
      by simp
    from Cons.IH [OF this] Skipped show ?thesis
      by (auto simp add: nth_Cons split: nat.splits)
  qed
qed


lemma revolutRow_reason:
  "revolutRow cols l = Skipped w \<longleftrightarrow>
     (trim l = [] \<and> w = ''Empty line'') \<or>
     (trim l \<noteq> [] \<and> length (parseCSVLine (trim l)) < 3 \<and> w = ''Not enough columns'') \<or>
     (trim l \<noteq> [] \<and> 3 \<le> length (parseCSVLine (trim l)) \<and> 0 \<le> amountIdx cols \<and>
      isNaN (parseFloat (pick (parseCSVLine (trim l)) (amountIdx cols) ''0'' ''0'')) \<and>
      w = ''Invalid amount'')"
  by (auto simp add: revolutRow_def Let_def isNaN_def)

lemma aibRow_reason:
  "aibRow cols l = Skipped w \<longleftrightarrow>
     (trim l = [] \<and> w = ''Empty line'') \<or>
     (trim l \<noteq> [] \<and> length (parseCSVLine (trim l)) < 2 \<and> w = ''Not enough columns'') \<or>
     (trim l \<noteq> [] \<and> 2 \<le> length (parseCSVLine (trim l)) \<and>
      isNaN (aibRowAmount cols (parseCSVLine (trim l))) \<and> w = ''Invalid amount'')"
  by (auto simp add: aibRow_def Let_def)

lemma rowLoop_accounting:
  assumes "rowLoop body (tl lines) 1 ([], 0, []) = (txs, sk, det)" and "2 \<le> length lines"
  shows "max 0 (length lines - 1) = length txs + sk"
    and "length det = sk"
    and "\<forall>d \<in> set det. 2 \<le> line d \<and> line d \<le> length lines \<and>
           body (lines ! (line d - 1)) = Skipped (reason d)"
    and "\<forall>n w. 2 \<le> n \<and> n \<le> length lines \<and> body (lines ! (n - 1)) = Skipped w
           \<longrightarrow> \<lparr>line = n, reason = w\<rparr> \<in> set det"
proof -
  from rowLoop_counts [OF assms(1)] show "max 0 (length lines - 1) = length txs + sk"
    and "length det = sk" by simp_all
  have nth_tl: "tl lines ! k = lines ! Suc k" if "k < length (tl lines)" for k
    using that by (simp add: nth_tl)
  show "\<forall>d \<in> set det. 2 \<le> line d \<and> line d \<le> length lines \<and>
          body (lines ! (line d - 1)) = Skipped (reason d)"
  proof
    fix d assume "d \<in> set det"
    from rowLoop_details_sound [OF assms(1) this]
    obtain k where k: "k < length (tl lines)" "line d = 1 + k + 1"
      "body (tl lines ! k) = Skipped (reason d)" by auto
    with nth_tl [OF k(1)] show "2 \<le> line d \<and> line d \<le> length lines \<and>
          body (lines ! (line d - 1)) = Skipped (reason d)" by simp
  qed
  show "\<forall>n w. 2 \<le> n \<and> n \<le> length lines \<and> body (lines ! (n - 1)) = Skipped w
           \<longrightarrow> \<lparr>line = n, reason = w\<rparr> \<in> set det"
  proof (intro allI impI)
    fix n w assume a: "2 \<le> n \<and> n \<le> length lines \<and> body (lines ! (n - 1)) = Skipped w"
    then have "n - 2 < length lines - 1" by arith
    then have k: "n - 2 < length (tl lines)" by simp
    from a have "Suc (n - 2) = n - 1" by arith
    with a nth_tl [OF k] have "body (tl lines ! (n - 2)) = Skipped w" by simp
    with rowLoop_details_complete [OF assms(1)] k
    have "\<lparr>line = 1 + (n - 2) + 1, reason = w\<rparr> \<in> set det" by blast
    moreover from a have "1 + (n - 2) + 1 = n" by arith
    ultimately show "\<lparr>line = n, reason = w\<rparr> \<in> set det" by simp
  qed
qed


lemma parseRevolutCSV_accounting:
  assumes "parseRevolutCSV c = Inr r"
  shows "rev_totalRows r = length (rev_transactions r) + rev_skipped r \<and>
         length (rev_skippedDetails r) = rev_skipped r \<and>
         (\<forall>d \<in> set (rev_skippedDetails r).
            2 \<le> line d \<and> line d \<le> length (csvLines c) \<and>
            revolutRow (revolutColumns (parseCSVLine (csvLines c ! 0))) (csvLines c ! (line d - 1))
              = Skipped (reason d)) \<and>
         (\<forall>n w. 2 \<le> n \<and> n \<le> length (csvLines c) \<and>
            revolutRow (revolutColumns (parseCSVLine (csvLines c ! 0))) (csvLines c ! (n - 1))
              = Skipped w
            \<longrightarrow> \<lparr>line = n, reason = w\<rparr> \<in> set (rev_skippedDetails r))"
proof -
  obtain txs sk det where
    loop: "rowLoop (revolutRow (revolutColumns (parseCSVLine (csvLines c ! 0))))
             (tl (csvLines c)) 1 ([], 0, []) = (txs, sk, det)"
    by (metis prod_cases3)
  from assms have len: "2 \<le> length (csvLines c)"
    by (auto simp add: parseRevolutCSV_def Let_def split: if_splits)
  from assms loop have r: "r = \<lparr> rev_transactions = txs, rev_skipped = sk,
      rev_totalRows = max 0 (length (csvLines c) - 1), rev_skippedDetails = det \<rparr>"
    by (auto simp add: parseRevolutCSV_def Let_def split: if_splits)
  from rowLoop_accounting [OF loop len] show ?thesis
    unfolding r by simp
qed

lemma parseAibCSV_accounting:
  assumes "parseAibCSV c = Inr r"
  shows "aib_totalRows r = length (aib_transactions r) + aib_skipped r \<and>
         length (aib_skippedDetails r) = aib_skipped r \<and>
         (\<forall>d \<in> set (aib_skippedDetails r).
            2 \<le> line d \<and> line d \<le> length (csvLines c) \<and>
            aibRow (aibColumns (parseCSVLine (csvLines c ! 0))) (csvLines c ! (line d - 1))
              = Skipped (reason d)) \<and>
         (\<forall>n w. 2 \<le> n \<and> n \<le> length (csvLines c) \<and>
            aibRow (aibColumns (parseCSVLine (csvLines c ! 0))) (csvLines c ! (n - 1))
              = Skipped w
            \<longrightarrow> \<lparr>line = n, reason = w\<rparr> \<in> set (aib_skippedDetails r))"
proof -
  obtain txs sk det where
    loop: "rowLoop (aibRow (aibColumns (parseCSVLine (csvLines c ! 0))))
             (tl (csvLines c)) 1 ([], 0, []) = (txs, sk, det)"
    by (metis prod_cases3)
  from assms have len: "2 \<le> length (csvLines c)"
    by (auto simp add: parseAibCSV_def Let_def split: if_splits)
  from assms loop have r: "r = \<lparr> aib_transactions = txs, aib_skipped = sk,
      aib_totalRows = max 0 (length (csvLines c) - 1), aib_skippedDetails = det \<rparr>"
    by (auto simp add: parseAibCSV_def Let_def split: if_splits)
  from rowLoop_accounting [OF loop len] show ?thesis
    unfolding r by simp
qed

text \<open>
  C8.  For a parse that returns: the row total is the number of records plus the number of
  skips; there is one diagnostic per skip; a diagnostic with line number \<open>n\<close> and reason
  \<open>w\<close> is present exactly for the source lines \<open>n \<ge> 2\<close> (the header is line 1) whose row is
  skipped with reason \<open>w\<close>; and a row is skipped with \<^verbatim>\<open>Empty line\<close> when it is blank, with
  \<^verbatim>\<open>Not enough columns\<close> when it has fewer than 3 (dialect A) or 2 (dialect B) fields, and
  with \<^verbatim>\<open>Invalid amount\<close> when its amount is not a number.  No other reason occurs.
\<close>

theorem skip_accounting:
  "(parseRevolutCSV c = Inr r \<longrightarrow>
      rev_totalRows r = length (rev_transactions r) + rev_skipped r \<and>
      length (rev_skippedDetails r) = rev_skipped r \<and>
      (\<forall>d \<in> set (rev_skippedDetails r).
         2 \<le> line d \<and> line d \<le> length (csvLines c) \<and>
         revolutRow (revolutColumns (parseCSVLine (csvLines c ! 0))) (csvLines c ! (line d - 1))
           = Skipped (reason d)) \<and>
      (\<forall>n w. 2 \<le> n \<and> n \<le> length (csvLines c) \<and>
         revolutRow (revolutColumns (parseCSVLine (csvLines c ! 0))) (csvLines c ! (n - 1))
           = Skipped w
         \<longrightarrow> \<lparr>line = n, reason = w\<rparr> \<in> set (rev_skippedDetails r))) \<and>
   (parseAibCSV c = Inr a \<longrightarrow>
      aib_totalRows a = length (aib_transactions a) + aib_skipped a \<and>
      length (aib_skippedDetails a) = aib_skipped a \<and>
      (\<forall>d \<in> set (aib_skippedDetails a).
         2 \<le> line d \<and> line d \<le> length (csvLines c) \<and>
         aibRow (aibColumns (parseCSVLine (csvLines c ! 0))) (csvLines c ! (line d - 1))
           = Skipped (reason d)) \<and>
      (\<forall>n w. 2 \<le> n \<and> n \<le> length (csvLines c) \<and>
         aibRow (aibColumns (parseCSVLine (csvLines c ! 0))) (csvLines c ! (n - 1))
           = Skipped w
         \<longrightarrow> \<lparr>line = n, reason = w\<rparr> \<in> set (aib_skippedDetails a))) \<and>
   (revolutRow rcols l = Skipped w \<longleftrightarrow>
      (trim l = [] \<and> w = ''Empty line'') \<or>
      (trim l \<noteq> [] \<and> length (parseCSVLine (trim l)) < 3 \<and> w = ''Not enough columns'') \<or>
      (trim l \<noteq> [] \<and> 3 \<le> length (parseCSVLine (trim l)) \<and> 0 \<le> amountIdx rcols \<and>
       isNaN (parseFloat (pick (parseCSVLine (trim l)) (amountIdx rcols) ''0'' ''0'')) \<and>
       w = ''Invalid amount'')) \<and>
   (aibRow acols l = Skipped w \<longleftrightarrow>
      (trim l = [] \<and> w = ''Empty line'') \<or>
      (trim l \<noteq> [] \<and> length (parseCSVLine (trim l)) < 2 \<and> w = ''Not enough columns'') \<or>
      (trim l \<noteq> [] \<and> 2 \<le> length (parseCSVLine (trim l)) \<and>
       isNaN (aibRowAmount acols (parseCSVLine (trim l))) \<and> w = ''Invalid amount''))"
  apply (intro conjI)
     apply (rule impI, rule parseRevolutCSV_accounting, assumption)
    apply (rule impI, rule parseAibCSV_accounting, assumption)
   apply (rule revolutRow_reason)
  apply (rule aibRow_reason)
  done

definition mixedRevolutFile :: string where
  "mixedRevolutFile = revolutSample @ [LF] @
     ''Card Payment,Current,2024-03-01 10:00:00,2024-03-02 11:00:00,Shop,-12.50,0.00,EUR,COMPLETED,100.00''
     @ [CR, LF] @ [LF] @ ''a,b'' @ [LF] @ ''a,b,c,d,e,xx,''"

definition mixedRevolutResult :: RevolutParseResult where
  "mixedRevolutResult =
     \<lparr> rev_transactions =
         [\<lparr> rev_type = ''Card Payment'', rev_product = ''Current'',
            rev_startedDate = ''2024-03-01 10:00:00'', rev_completedDate = ''2024-03-02 11:00:00'',
            rev_description = ''Shop'', rev_payer = [], rev_payee = [],
            rev_amount = Fin (- (25 / 2)), rev_fee = Fin 0, rev_currency = ''EUR'',
            rev_state = ''COMPLETED'', rev_balance = ''100.00'' \<rparr>],
       rev_skipped = 3, rev_totalRows = 4,
       rev_skippedDetails =
         [\<lparr>line = 3, reason = ''Empty line''\<rparr>, \<lparr>line = 4, reason = ''Not enough columns''\<rparr>,
          \<lparr>line = 5, reason = ''Invalid amount''\<rparr>] \<rparr>"

definition mixedAibFile :: string where
  "mixedAibFile = ''Date,Description,Amount'' @ [LF] @ ''01/03/2024,Shop,-3.50'' @ [LF] @
     ''x'' @ [LF] @ '' '' @ [LF] @ ''02/03/2024,Shop,abc''"

definition mixedAibResult :: AibParseResult where
  "mixedAibResult =
     \<lparr> aib_transactions =
         [\<lparr> aib_date = ''01/03/2024'', aib_description = ''Shop'', aib_amount = Fin (- (7 / 2)),
            aib_currency = ''EUR'', aib_balance = [], aib_product = ''AIB'' \<rparr>],
       aib_skipped = 3, aib_totalRows = 4,
       aib_skippedDetails =
         [\<lparr>line = 3, reason = ''Not enough columns''\<rparr>, \<lparr>line = 4, reason = ''Empty line''\<rparr>,
          \<lparr>line = 5, reason = ''Invalid amount''\<rparr>] \<rparr>"

lemma mixed_files_parse:
  "parseRevolutCSV mixedRevolutFile = Inr mixedRevolutResult"
  "parseAibCSV mixedAibFile = Inr mixedAibResult"
  by code_simp+

theorem skip_accounting_witness:
  "parseRevolutCSV mixedRevolutFile = Inr mixedRevolutResult \<and>
   rev_totalRows mixedRevolutResult
     = length (rev_transactions mixedRevolutResult) + rev_skipped mixedRevolutResult \<and>
   length (rev_skippedDetails mixedRevolutResult) = rev_skipped mixedRevolutResult \<and>
   parseAibCSV mixedAibFile = Inr mixedAibResult \<and>
   aib_totalRows mixedAibResult
     = length (aib_transactions mixedAibResult) + aib_skipped mixedAibResult \<and>
   length (aib_skippedDetails mixedAibResult) = aib_skipped mixedAibResult"
proof -
  note rev = mixed_files_parse(1) and aib = mixed_files_parse(2)
  note r = conjunct1 [OF skip_accounting [of mixedRevolutFile mixedRevolutResult], rule_format, OF rev]
  note a = conjunct1 [OF conjunct2 [OF skip_accounting [of mixedAibFile _ mixedAibResult]],
      rule_format, OF aib]
  from rev aib r a show ?thesis by (simp only: simp_thms)
qed


text \<open>
  C9.  Each parser either throws or returns.  \<^verbatim>\<open>parseRevolutCSV\<close> throws exactly when the
  content has fewer than two lines (no line feed) or no header field is, trimmed and in lower
  case, \<^verbatim>\<open>amount\<close>.  \<^verbatim>\<open>parseAibCSV\<close> throws exactly when the content has fewer than two
  lines, or no header field contains a date alias, or no header field contains an amount,
  debit or credit alias.  In every other case the parser returns a result in which every
  malformed row is recorded as a skip: a row is malformed when it is blank, has too few
  fields or has an amount that is not a number; each such row at source line \<open>n\<close> appears in
  the diagnostics with its line number and reason, is counted in the skip counter and is
  left out of the records, and the rows after it are still processed (the row total is the
  number of records plus the number of skips).
\<close>

theorem fatal_parse_errors:
  fixes c :: string
  defines "hs \<equiv> map (\<lambda>h. toLowerCase (trim h)) (parseCSVLine (csvLines c ! 0))"
  shows "(length (csvLines c) < 2 \<longleftrightarrow> LF \<notin> set c) \<and>
         ((\<exists>e. parseRevolutCSV c = Inl e) \<longleftrightarrow> length (csvLines c) < 2 \<or> ''amount'' \<notin> set hs) \<and>
         ((\<exists>r. parseRevolutCSV c = Inr r) \<longleftrightarrow> \<not> (length (csvLines c) < 2 \<or> ''amount'' \<notin> set hs)) \<and>
         ((\<exists>e. parseAibCSV c = Inl e) \<longleftrightarrow>
            length (csvLines c) < 2 \<or>
            (\<forall>a \<in> set dateAliases. \<forall>h \<in> set hs. \<not> includesStr h a) \<or>
            (\<forall>a \<in> set (amountAliases @ debitAliases @ creditAliases).
               \<forall>h \<in> set hs. \<not> includesStr h a)) \<and>
         ((\<exists>r. parseAibCSV c = Inr r) \<longleftrightarrow>
            \<not> (length (csvLines c) < 2 \<or>
               (\<forall>a \<in> set dateAliases. \<forall>h \<in> set hs. \<not> includesStr h a) \<or>
               (\<forall>a \<in> set (amountAliases @ debitAliases @ creditAliases).
                  \<forall>h \<in> set hs. \<not> includesStr h a))) \<and>
         (parseRevolutCSV c = Inr r \<longrightarrow>
            rev_totalRows r = length (csvLines c) - 1 \<and>
            rev_totalRows r = length (rev_transactions r) + rev_skipped r \<and>
            length (rev_skippedDetails r) = rev_skipped r \<and>
            (\<forall>n w. 2 \<le> n \<and> n \<le> length (csvLines c) \<and>
               revolutRow (revolutColumns (parseCSVLine (csvLines c ! 0))) (csvLines c ! (n - 1))
                 = Skipped w
               \<longrightarrow> \<lparr>line = n, reason = w\<rparr> \<in> set (rev_skippedDetails r)) \<and>
            (\<forall>d \<in> set (rev_skippedDetails r).
               2 \<le> line d \<and> line d \<le> length (csvLines c) \<and>
               revolutRow (revolutColumns (parseCSVLine (csvLines c ! 0)))
                 (csvLines c ! (line d - 1)) = Skipped (reason d))) \<and>
         (parseAibCSV c = Inr a \<longrightarrow>
            aib_totalRows a = length (csvLines c) - 1 \<and>
            aib_totalRows a = length (aib_transactions a) + aib_skipped a \<and>
            length (aib_skippedDetails a) = aib_skipped a \<and>
            (\<forall>n w. 2 \<le> n \<and> n \<le> length (csvLines c) \<and>
               aibRow (aibColumns (parseCSVLine (csvLines c ! 0))) (csvLines c ! (n - 1))
                 = Skipped w
               \<longrightarrow> \<lparr>line = n, reason = w\<rparr> \<in> set (aib_skippedDetails a)) \<and>
            (\<forall>d \<in> set (aib_skippedDetails a).
               2 \<le> line d \<and> line d \<le> length (csvLines c) \<and>
               aibRow (aibColumns (parseCSVLine (csvLines c ! 0)))
                 (csvLines c ! (line d - 1)) = Skipped (reason d))) \<and>
         (revolutRow rcols l = Skipped w \<longleftrightarrow>
            (trim l = [] \<and> w = ''Empty line'') \<or>
            (trim l \<noteq> [] \<and> length (parseCSVLine (trim l)) < 3 \<and> w = ''Not enough columns'') \<or>
            (trim l \<noteq> [] \<and> 3 \<le> length (parseCSVLine (trim l)) \<and> 0 \<le> amountIdx rcols \<and>
             isNaN (parseFloat (pick (parseCSVLine (trim l)) (amountIdx rcols) ''0'' ''0'')) \<and>
             w = ''Invalid amount'')) \<and>
         (aibRow acols l = Skipped w \<longleftrightarrow>
            (trim l = [] \<and> w = ''Empty line'') \<or>
            (trim l \<noteq> [] \<and> length (parseCSVLine (trim l)) < 2 \<and> w = ''Not enough columns'') \<or>
            (trim l \<noteq> [] \<and> 2 \<le> length (parseCSVLine (trim l)) \<and>
             isNaN (aibRowAmount acols (parseCSVLine (trim l))) \<and> w = ''Invalid amount''))"
proof -
  have rev: "(\<exists>e. parseRevolutCSV c = Inl e) \<longleftrightarrow> length (csvLines c) < 2 \<or> ''amount'' \<notin> set hs"
    unfolding hs_def parseRevolutCSV_throws revolut_amount_missing ..
  have aib: "(\<exists>e. parseAibCSV c = Inl e) \<longleftrightarrow>
      length (csvLines c) < 2 \<or>
      (\<forall>a \<in> set dateAliases. \<forall>h \<in> set hs. \<not> includesStr h a) \<or>
      (\<forall>a \<in> set (amountAliases @ debitAliases @ creditAliases).
         \<forall>h \<in> set hs. \<not> includesStr h a)"
    unfolding hs_def parseAibCSV_throws aib_columns_missing by auto
  have rev': "(\<exists>r. parseRevolutCSV c = Inr r) \<longleftrightarrow> \<not> (\<exists>e. parseRevolutCSV c = Inl e)"
    by (cases "parseRevolutCSV c") auto
  have aib': "(\<exists>r. parseAibCSV c = Inr r) \<longleftrightarrow> \<not> (\<exists>e. parseAibCSV c = Inl e)"
    by (cases "parseAibCSV c") auto
  have throws: "(length (csvLines c) < 2 \<longleftrightarrow> LF \<notin> set c) \<and>
         ((\<exists>e. parseRevolutCSV c = Inl e) \<longleftrightarrow> length (csvLines c) < 2 \<or> ''amount'' \<notin> set hs) \<and>
         ((\<exists>r. parseRevolutCSV c = Inr r) \<longleftrightarrow> \<not> (length (csvLines c) < 2 \<or> ''amount'' \<notin> set hs)) \<and>
         ((\<exists>e. parseAibCSV c = Inl e) \<longleftrightarrow>
            length (csvLines c) < 2 \<or>
            (\<forall>a \<in> set dateAliases. \<forall>h \<in> set hs. \<not> includesStr h a) \<or>
            (\<forall>a \<in> set (amountAliases @ debitAliases @ creditAliases).
               \<forall>h \<in> set hs. \<not> includesStr h a)) \<and>
         ((\<exists>r. parseAibCSV c = Inr r) \<longleftrightarrow>
            \<not> (length (csvLines c) < 2 \<or>
               (\<forall>a \<in> set dateAliases. \<forall>h \<in> set hs. \<not> includesStr h a) \<or>
               (\<forall>a \<in> set (amountAliases @ debitAliases @ creditAliases).
                  \<forall>h \<in> set hs. \<not> includesStr h a)))"
    by (simp only: few_lines_iff rev aib rev' aib' simp_thms)
  have revRows: "rev_totalRows r = length (csvLines c) - 1 \<and>
            rev_totalRows r = length (rev_transactions r) + rev_skipped r \<and>
            length (rev_skippedDetails r) = rev_skipped r \<and>
            (\<forall>n w. 2 \<le> n \<and> n \<le> length (csvLines c) \<and>
               revolutRow (revolutColumns (parseCSVLine (csvLines c ! 0))) (csvLines c ! (n - 1))
                 = Skipped w
               \<longrightarrow> \<lparr>line = n, reason = w\<rparr> \<in> set (rev_skippedDetails r)) \<and>
            (\<forall>d \<in> set (rev_skippedDetails r).
               2 \<le> line d \<and> line d \<le> length (csvLines c) \<and>
               revolutRow (revolutColumns (parseCSVLine (csvLines c ! 0)))
                 (csvLines c ! (line d - 1)) = Skipped (reason d))"
    if ok: "parseRevolutCSV c = Inr r"
  proof -
    from ok have "rev_totalRows r = length (csvLines c) - 1"
      by (auto simp add: parseRevolutCSV_def Let_def split: if_splits prod.splits)
    with parseRevolutCSV_accounting [OF ok] show ?thesis by blast
  qed
  have aibRows: "aib_totalRows a = length (csvLines c) - 1 \<and>
            aib_totalRows a = length (aib_transactions a) + aib_skipped a \<and>
            length (aib_skippedDetails a) = aib_skipped a \<and>
            (\<forall>n w. 2 \<le> n \<and> n \<le> length (csvLines c) \<and>
               aibRow (aibColumns (parseCSVLine (csvLines c ! 0))) (csvLines c ! (n - 1))
                 = Skipped w
               \<longrightarrow> \<lparr>line = n, reason = w\<rparr> \<in> set (aib_skippedDetails a)) \<and>
            (\<forall>d \<in> set (aib_skippedDetails a).
               2 \<le> line d \<and> line d \<le> length (csvLines c) \<and>
               aibRow (aibColumns (parseCSVLine (csvLines c ! 0)))
                 (csvLines c ! (line d - 1)) = Skipped (reason d))"
    if ok: "parseAibCSV c = Inr a"
  proof -
    from ok have "aib_totalRows a = length (csvLines c) - 1"
      by (auto simp add: parseAibCSV_def Let_def split: if_splits prod.splits)
    with parseAibCSV_accounting [OF ok] show ?thesis by blast
  qed
  show ?thesis
    apply (intro conjI)
            apply (rule conjunct1 [OF throws])
           apply (rule conjunct1 [OF conjunct2 [OF throws]])
          apply (rule conjunct1 [OF conjunct2 [OF conjunct2 [OF throws]]])
         apply (rule conjunct1 [OF conjunct2 [OF conjunct2 [OF conjunct2 [OF throws]]]])
        apply (rule conjunct2 [OF conjunct2 [OF conjunct2 [OF conjunct2 [OF throws]]]])
       apply (rule impI, erule revRows)
      apply (rule impI, erule aibRows)
     apply (rule revolutRow_reason)
    apply (rule aibRow_reason)
    done
qed

definition noAmountFile :: string where
  "noAmountFile = ''Type,Product,Date'' @ [LF] @ ''Topup,Current,2024-03-01''"

theorem fatal_parse_errors_witness:
  "LF \<in> set noAmountFile \<and>
   ''amount'' \<notin> set (map (\<lambda>h. toLowerCase (trim h)) (parseCSVLine (csvLines noAmountFile ! 0))) \<and>
   (\<exists>e. parseRevolutCSV noAmountFile = Inl e) \<and>
   (\<exists>e. parseAibCSV noAmountFile = Inl e) \<and>
   (\<exists>r. parseAibCSV aibSample = Inl r) \<and> (\<exists>r. parseAibCSV fallbackSample = Inr r) \<and>
   parseRevolutCSV mixedRevolutFile = Inr mixedRevolutResult \<and>
   revolutRow (revolutColumns (parseCSVLine (csvLines mixedRevolutFile ! 0)))
     (csvLines mixedRevolutFile ! (3 - 1)) = Skipped ''Empty line'' \<and>
   \<lparr>line = 3, reason = ''Empty line''\<rparr> \<in> set (rev_skippedDetails mixedRevolutResult) \<and>
   rev_totalRows mixedRevolutResult = length (csvLines mixedRevolutFile) - 1 \<and>
   parseAibCSV mixedAibFile = Inr mixedAibResult \<and>
   aibRow (aibColumns (parseCSVLine (csvLines mixedAibFile ! 0)))
     (csvLines mixedAibFile ! (5 - 1)) = Skipped ''Invalid amount'' \<and>
   \<lparr>line = 5, reason = ''Invalid amount''\<rparr> \<in> set (aib_skippedDetails mixedAibResult) \<and>
   aib_totalRows mixedAibResult = length (csvLines mixedAibFile) - 1"
proof -
  have a: "''amount'' \<notin> set (map (\<lambda>h. toLowerCase (trim h)) (parseCSVLine (csvLines noAmountFile ! 0)))"
    by code_simp
  have b: "\<forall>a \<in> set (amountAliases @ debitAliases @ creditAliases).
      \<forall>h \<in> set (map (\<lambda>h. toLowerCase (trim h)) (parseCSVLine (csvLines noAmountFile ! 0))).
        \<not> includesStr h a"
    by code_simp
  have c: "LF \<in> set noAmountFile" "LF \<notin> set aibSample" "LF \<in> set fallbackSample"
    by code_simp+
  have d: "\<not> (\<forall>a \<in> set dateAliases. \<forall>h \<in> set (map (\<lambda>h. toLowerCase (trim h)) (parseCSVLine (csvLines fallbackSample ! 0))).
        \<not> includesStr h a)"
     "\<not> (\<forall>a \<in> set (amountAliases @ debitAliases @ creditAliases). \<forall>h \<in> set (map (\<lambda>h. toLowerCase (trim h)) (parseCSVLine (csvLines fallbackSample ! 0))).
        \<not> includesStr h a)"
    by code_simp+
  note revT = conjunct1 [OF conjunct2 [OF fatal_parse_errors]]
  note aibT = conjunct1 [OF conjunct2 [OF conjunct2 [OF conjunct2 [OF fatal_parse_errors]]]]
  note aibR = conjunct1 [OF conjunct2 [OF conjunct2 [OF conjunct2 [OF conjunct2
      [OF fatal_parse_errors]]]]]
  note revRows = conjunct1 [OF conjunct2 [OF conjunct2 [OF conjunct2 [OF conjunct2
      [OF conjunct2 [OF fatal_parse_errors [of mixedRevolutFile mixedRevolutResult]]]]]],
      rule_format, OF mixed_files_parse(1)]
  note aibRows = conjunct1 [OF conjunct2 [OF conjunct2 [OF conjunct2 [OF conjunct2
      [OF conjunct2 [OF conjunct2 [OF fatal_parse_errors [of mixedAibFile _ mixedAibResult]]]]]]],
      rule_format, OF mixed_files_parse(2)]
  have e: "\<exists>e. parseRevolutCSV noAmountFile = Inl e"
    by (rule iffD2 [OF revT disjI2 [OF a]])
  have f: "\<exists>e. parseAibCSV noAmountFile = Inl e"
    by (rule iffD2 [OF aibT disjI2 [OF disjI2 [OF b]]])
  have "length (csvLines aibSample) < 2"
    using c(2) by (simp add: few_lines_iff)
  then have g: "\<exists>e. parseAibCSV aibSample = Inl e"
    by (rule iffD2 [OF aibT disjI1])
  have "\<not> length (csvLines fallbackSample) < 2"
    using c(3) by (simp add: few_lines_iff)
  with d have h: "\<exists>r. parseAibCSV fallbackSample = Inr r"
    by (simp only: aibR simp_thms)
  have blank: "revolutRow (revolutColumns (parseCSVLine (csvLines mixedRevolutFile ! 0)))
     (csvLines mixedRevolutFile ! (3 - 1)) = Skipped ''Empty line''"
    and len: "2 \<le> (3::nat) \<and> 3 \<le> length (csvLines mixedRevolutFile)"
    by code_simp+
  have bad: "aibRow (aibColumns (parseCSVLine (csvLines mixedAibFile ! 0)))
     (csvLines mixedAibFile ! (5 - 1)) = Skipped ''Invalid amount''"
    and len': "2 \<le> (5::nat) \<and> 5 \<le> length (csvLines mixedAibFile)"
    by code_simp+
  from revRows have i: "rev_totalRows mixedRevolutResult = length (csvLines mixedRevolutFile) - 1"
    and all: "\<And>n w. 2 \<le> n \<and> n \<le> length (csvLines mixedRevolutFile) \<and>
        revolutRow (revolutColumns (parseCSVLine (csvLines mixedRevolutFile ! 0)))
          (csvLines mixedRevolutFile ! (n - 1)) = Skipped w
        \<Longrightarrow> \<lparr>line = n, reason = w\<rparr> \<in> set (rev_skippedDetails mixedRevolutResult)"
    by blast+
  from all [of 3 "''Empty line''"] len blank
  have j: "\<lparr>line = 3, reason = ''Empty line''\<rparr> \<in> set (rev_skippedDetails mixedRevolutResult)"
    by blast
  from aibRows have k: "aib_totalRows mixedAibResult = length (csvLines mixedAibFile) - 1"
    and all': "\<And>n w. 2 \<le> n \<and> n \<le> length (csvLines mixedAibFile) \<and>
        aibRow (aibColumns (parseCSVLine (csvLines mixedAibFile ! 0)))
          (csvLines mixedAibFile ! (n - 1)) = Skipped w
        \<Longrightarrow> \<lparr>line = n, reason = w\<rparr> \<in> set (aib_skippedDetails mixedAibResult)"
    by blast+
  from all' [of 5 "''Invalid amount''"] len' bad
  have l: "\<lparr>line = 5, reason = ''Invalid amount''\<rparr> \<in> set (aib_skippedDetails mixedAibResult)"
    by blast
  from a c(1) e f g h mixed_files_parse blank j i bad l k show ?thesis by (intro conjI)
qed


subsection \<open>Amount precedence of dialect B\<close>

text \<open>
  A column is usable for a row when it is resolved, the row's field is present and not blank,
  and the field parses, commas removed, to a number other than zero.
\<close>

definition usable :: "string list \<Rightarrow> int \<Rightarrow> bool" where
  "usable flds idx =
     (idx \<ge> 0 \<and> nonBlankAt flds idx \<and> \<not> isNaN (numericField flds idx) \<and>
      numericField flds idx \<noteq> Fin 0)"

text \<open>
  The amount, the kind and the amount in minor units of every record of a dialect-B file.
\<close>

definition aibCanonical :: "string \<Rightarrow> error + (number \<times> kind \<times> number) list" where
  "aibCanonical csvContent =
     (case parseAibCSV csvContent of
        Inl e \<Rightarrow> Inl e
      | Inr r \<Rightarrow> Inr (map (\<lambda>t. (aib_amount t, kindOf (aib_amount t), amountInCents (aib_amount t)))
                     (aib_transactions r)))"

text \<open>
  Two rows under the header \<^verbatim>\<open>Date,Description,Debit,Credit,Balance\<close>: one whose Debit
  field is \<^verbatim>\<open>45,00\<close> (quoted in the file, so that the tokenizer keeps it as one field) and
  one whose Debit field is \<^verbatim>\<open>45.00\<close>; the Credit field is empty in both.
\<close>

definition debitCommaRow :: string where
  "debitCommaRow = ''01/03/2024,Shop,'' @ [DQ] @ ''45,00'' @ [DQ] @ '',,100.00''"

definition debitPointRow :: string where
  "debitPointRow = ''01/03/2024,Shop,45.00,,100.00''"

lemma numNeg_numAbs_nonzero: "\<not> isNaN d \<Longrightarrow> d \<noteq> Fin 0 \<Longrightarrow> numNeg (numAbs d) \<noteq> Fin 0"
  by (cases d) (auto simp add: isNaN_def)

lemma numAbs_nonzero: "\<not> isNaN d \<Longrightarrow> d \<noteq> Fin 0 \<Longrightarrow> numAbs d \<noteq> Fin 0"
  by (cases d) (auto simp add: isNaN_def)

lemma afterDebit_usable:
  "afterDebit cols flds =
     (if usable flds (debitIdx cols) then numNeg (numAbs (numericField flds (debitIdx cols)))
      else Fin 0)"
  by (auto simp add: afterDebit_def usable_def Let_def)

lemma afterCredit_usable:
  "afterCredit cols flds =
     (if usable flds (debitIdx cols) then numNeg (numAbs (numericField flds (debitIdx cols)))
      else if usable flds (creditIdx cols) then numAbs (numericField flds (creditIdx cols))
      else Fin 0)"
  using numNeg_numAbs_nonzero [of "numericField flds (debitIdx cols)"]
  by (auto simp add: afterCredit_def afterDebit_usable usable_def Let_def)

lemma aibRowAmount_usable:
  "aibRowAmount cols flds =
     (if usable flds (debitIdx cols) then numNeg (numAbs (numericField flds (debitIdx cols)))
      else if usable flds (creditIdx cols) then numAbs (numericField flds (creditIdx cols))
      else if aibAmountIdx cols \<ge> 0 \<and>
              (case fieldAt flds (aibAmountIdx cols) of None \<Rightarrow> False | Some f \<Rightarrow> f \<noteq> [])
           then numericField flds (aibAmountIdx cols)
      else Fin 0)"
  using numNeg_numAbs_nonzero [of "numericField flds (debitIdx cols)"]
    numAbs_nonzero [of "numericField flds (creditIdx cols)"]
  by (auto simp add: aibRowAmount_def afterCredit_usable usable_def Let_def)

lemma debit_rows:
  "aibCanonical (aibSample @ [LF] @ debitCommaRow) = Inr [(Fin (- 4500), expense, Fin 450000)]"
  "aibCanonical (aibSample @ [LF] @ debitPointRow) = Inr [(Fin (- 45), expense, Fin 4500)]"
  by code_simp+

text \<open>
  C3, as amended.  A usable debit column gives minus the absolute debit; else a usable credit
  column gives the absolute credit; else a present, non-empty field of the amount column is
  parsed with its own sign.  Commas are removed before parsing, so a Debit field
  \<^verbatim>\<open>45,00\<close> is read as 4500: the amount is -4500, an expense of 450000 minor units.  A Debit
  field \<^verbatim>\<open>45.00\<close> gives the amount -45, an expense of 4500 minor units.
\<close>

theorem aib_amount_precedence:
  "(usable flds (debitIdx cols)
      \<longrightarrow> aibRowAmount cols flds = numNeg (numAbs (numericField flds (debitIdx cols)))) \<and>
   (\<not> usable flds (debitIdx cols) \<and> usable flds (creditIdx cols)
      \<longrightarrow> aibRowAmount cols flds = numAbs (numericField flds (creditIdx cols))) \<and>
   (\<not> usable flds (debitIdx cols) \<and> \<not> usable flds (creditIdx cols) \<and>
    aibAmountIdx cols \<ge> 0 \<and> fieldAt flds (aibAmountIdx cols) = Some f \<and> f \<noteq> []
      \<longrightarrow> aibRowAmount cols flds = parseFloat (removeCommas (trim f))) \<and>
   aibCanonical (aibSample @ [LF] @ debitCommaRow) = Inr [(Fin (- 4500), expense, Fin 450000)] \<and>
   aibCanonical (aibSample @ [LF] @ debitPointRow) = Inr [(Fin (- 45), expense, Fin 4500)]"
proof (intro conjI impI)
  assume "usable flds (debitIdx cols)"
  then show "aibRowAmount cols flds = numNeg (numAbs (numericField flds (debitIdx cols)))"
    by (simp add: aibRowAmount_usable)
next
  assume "\<not> usable flds (debitIdx cols) \<and> usable flds (creditIdx cols)"
  then show "aibRowAmount cols flds = numAbs (numericField flds (creditIdx cols))"
    by (simp add: aibRowAmount_usable)
next
  assume "\<not> usable flds (debitIdx cols) \<and> \<not> usable flds (creditIdx cols) \<and>
    aibAmountIdx cols \<ge> 0 \<and> fieldAt flds (aibAmountIdx cols) = Some f \<and> f \<noteq> []"
  then show "aibRowAmount cols flds = parseFloat (removeCommas (trim f))"
    by (simp add: aibRowAmount_usable numericField_def)
qed (rule debit_rows)+

theorem aib_amount_precedence_witness:
  "usable (parseCSVLine debitCommaRow) (debitIdx (aibColumns (parseCSVLine aibSample))) \<and>
   numericField (parseCSVLine debitCommaRow) (debitIdx (aibColumns (parseCSVLine aibSample)))
     = Fin 4500 \<and>
   aibRowAmount (aibColumns (parseCSVLine aibSample)) (parseCSVLine debitCommaRow) = Fin (- 4500)"
proof -
  have u: "usable (parseCSVLine debitCommaRow) (debitIdx (aibColumns (parseCSVLine aibSample)))"
    by code_simp
  have n: "numericField (parseCSVLine debitCommaRow)
      (debitIdx (aibColumns (parseCSVLine aibSample))) = Fin 4500"
    by code_simp
  from conjunct1 [OF aib_amount_precedence, rule_format, OF u] n
  have "aibRowAmount (aibColumns (parseCSVLine aibSample)) (parseCSVLine debitCommaRow)
      = Fin (- 4500)" by simp
  with u n show ?thesis by (intro conjI)
qed

text \<open>
  C3, as stated, fails: for the row whose Debit field is \<^verbatim>\<open>45,00\<close> and whose Credit field
  is empty the amount is not -45 and the amount in minor units is not 4500.
\<close>

theorem aib_debit_comma_counterexample:
  "fieldAt (parseCSVLine debitCommaRow) (debitIdx (aibColumns (parseCSVLine aibSample)))
     = Some ''45,00'' \<and>
   fieldAt (parseCSVLine debitCommaRow) (creditIdx (aibColumns (parseCSVLine aibSample)))
     = Some [] \<and>
   aibRowAmount (aibColumns (parseCSVLine aibSample)) (parseCSVLine debitCommaRow)
     \<noteq> Fin (- 45) \<and>
   amountInCents (aibRowAmount (aibColumns (parseCSVLine aibSample)) (parseCSVLine debitCommaRow))
     \<noteq> Fin 4500"
  by code_simp


section \<open>Canonical transactions and dates\<close>

text \<open>
  \<^verbatim>\<open>ParsedTransaction\<close> (and the \<^verbatim>\<open>Transaction\<close> of the import screens, which has the same
  fields): the amount is an integer number of minor units, the date an ISO-8601 text.
\<close>

record ParsedTransaction =
  title :: string
  subtitle :: string
  amount :: int
  kind :: kind
  date :: string
  categoryId :: string
  currency :: string
  excludeFromAnalytics :: "bool option"
  isAnalyticsProtected :: "bool option"

text \<open>
  \<^verbatim>\<open>new Date(text).getTime()\<close> belongs to the runtime and accepts more than ISO-8601, so it is
  a parameter of the model: a clock gives the instant of a text in milliseconds since the
  epoch, or \<open>None\<close> for an invalid date (time value \<^verbatim>\<open>NaN\<close>).
\<close>

type_synonym clock = "string \<Rightarrow> int option"

text \<open>
  The decimal digits of a non-negative integer, as \<^verbatim>\<open>String(n)\<close> prints them below
  \<open>10\<^sup>2\<^sup>1\<close>.  \<open>digitChar d\<close> is the digit \<open>d\<close> for \<open>0 \<le> d \<le> 9\<close> (its argument is
  reduced modulo 10, which makes every output a digit).
\<close>

definition digitChar :: "int \<Rightarrow> char" where
  "digitChar d = char_of (48 + d mod 10)"

function showDigits :: "int \<Rightarrow> string" where
  "showDigits n =
     (if n < 10 then [digitChar n] else showDigits (n div 10) @ [digitChar (n mod 10)])"
  by pat_completeness auto
termination
  by (relation "measure nat") auto

declare showDigits.simps [simp del]

definition showInt :: "int \<Rightarrow> string" where
  "showInt i = (if i < 0 then CHR ''-'' # showDigits (- i) else showDigits i)"

text \<open>
  \<^verbatim>\<open>d.toISOString().split('T')[0]\<close> for a valid date: the proleptic Gregorian calendar day
  of the instant in UTC, as \<^verbatim>\<open>YYYY-MM-DD\<close>, with a sign and six digits for years outside
  0 to 9999.
\<close>

definition pad :: "nat \<Rightarrow> string \<Rightarrow> string" where
  "pad n s = replicate (n - length s) (CHR ''0'') @ s"

definition civilFromDays :: "int \<Rightarrow> int \<times> int \<times> int" where
  "civilFromDays days =
     (let z = days + 719468;
          era = z div 146097;
          doe = z mod 146097;
          yoe = (doe - doe div 1460 + doe div 36524 - doe div 146096) div 365;
          y = yoe + era * 400;
          doy = doe - (365 * yoe + yoe div 4 - yoe div 100);
          mp = (5 * doy + 2) div 153;
          d = doy - (153 * mp + 2) div 5 + 1;
          m = (if mp < 10 then mp + 3 else mp - 9)
      in (if m \<le> 2 then y + 1 else y, m, d))"

definition isoYear :: "int \<Rightarrow> string" where
  "isoYear y =
     (if 0 \<le> y \<and> y \<le> 9999 then pad 4 (showDigits y)
      else (if y < 0 then CHR ''-'' else CHR ''+'') # pad 6 (showDigits \<bar>y\<bar>))"

definition isoDay :: "int \<Rightarrow> string" where
  "isoDay ms =
     (case civilFromDays (ms div 86400000) of
        (y, m, d) \<Rightarrow> isoYear y @ ''-'' @ pad 2 (showDigits m) @ ''-'' @ pad 2 (showDigits d))"


lemma digitChar_nat: "digitChar d = char_of (48 + nat (d mod 10))"
proof -
  have "48 + d mod 10 = int (48 + nat (d mod 10))" by simp
  then show ?thesis unfolding digitChar_def by (simp only: char_of_nat)
qed

lemma isDigit_digitChar: "isDigit (digitChar d)"
proof -
  have "nat (d mod 10) < 10" by simp
  then have "(48 + nat (d mod 10)) mod 256 = 48 + nat (d mod 10)" by simp
  then show ?thesis by (simp add: isDigit_def digitChar_nat)
qed

lemma digitVal_digitChar: "digitVal (digitChar d) = d mod 10"
proof -
  have "0 \<le> d mod 10" "d mod 10 < 10" by simp_all
  then have "(48 + d mod 10) mod 256 = 48 + d mod 10" by simp
  then show ?thesis by (simp add: digitVal_def digitChar_def)
qed

lemma showDigits_digits: "list_all isDigit (showDigits n)"
  by (induction n rule: showDigits.induct)
     (subst showDigits.simps, simp add: isDigit_digitChar)

lemma digitsVal_snoc: "digitsVal (ds @ [c]) = 10 * digitsVal ds + digitVal c"
  by (simp add: digitsVal_def)

lemma digitsVal_showDigits: "0 \<le> n \<Longrightarrow> digitsVal (showDigits n) = n"
proof (induction n rule: showDigits.induct)
  case (1 n)
  show ?case
  proof (cases "n < 10")
    case True
    with 1 show ?thesis
      by (subst showDigits.simps) (simp add: digitsVal_def digitVal_digitChar)
  next
    case False
    with 1 have "digitsVal (showDigits (n div 10)) = n div 10" by simp
    with False show ?thesis
      by (subst showDigits.simps) (simp add: digitsVal_snoc digitVal_digitChar)
  qed
qed

lemma showDigits_inj: "0 \<le> a \<Longrightarrow> 0 \<le> b \<Longrightarrow> showDigits a = showDigits b \<Longrightarrow> a = b"
  by (metis digitsVal_showDigits)

lemma isDigit_not_separator:
  "isDigit c \<Longrightarrow> c \<noteq> CHR ''|'' \<and> c \<noteq> CHR ''_'' \<and> c \<noteq> CHR ''-''"
  by (auto simp add: isDigit_def)

lemma split_at_first:
  "c \<notin> set xs \<Longrightarrow> c \<notin> set xs' \<Longrightarrow> xs @ c # ys = xs' @ c # ys' \<Longrightarrow> xs = xs' \<and> ys = ys'"
proof (induction xs arbitrary: xs')
  case Nil
  then show ?case by (cases xs') auto
next
  case (Cons a xs)
  then show ?case by (cases xs') auto
qed

lemma split_at_last:
  assumes "c \<notin> set ys" and "c \<notin> set ys'" and "xs @ c # ys = xs' @ c # ys'"
  shows "xs = xs' \<and> ys = ys'"
proof -
  from assms(3) have "rev (xs @ c # ys) = rev (xs' @ c # ys')" by simp
  then have "rev ys @ c # rev xs = rev ys' @ c # rev xs'" by simp
  moreover have "c \<notin> set (rev ys)" "c \<notin> set (rev ys')" using assms by simp_all
  ultimately have "rev ys = rev ys' \<and> rev xs = rev xs'"
    by (rule split_at_first [rotated 2])
  then show ?thesis by simp
qed


lemma showDigits_no_sep:
  "CHR ''|'' \<notin> set (showDigits n)" "CHR ''_'' \<notin> set (showDigits n)"
  "CHR ''-'' \<notin> set (showDigits n)"
  using showDigits_digits [of n] isDigit_not_separator
  by (auto simp add: list_all_iff)

lemma pad_no_sep: "c \<noteq> CHR ''0'' \<Longrightarrow> c \<notin> set s \<Longrightarrow> c \<notin> set (pad n s)"
  by (simp add: pad_def)

lemma isoDay_no_sep: "CHR ''|'' \<notin> set (isoDay ms)" "CHR ''_'' \<notin> set (isoDay ms)"
  by (auto simp add: isoDay_def isoYear_def pad_no_sep showDigits_no_sep split: prod.splits)

section \<open>Deduplication (app/import/revolut/preview.tsx)\<close>

text \<open>
  A stored document as \<^verbatim>\<open>makeKeyFromDoc\<close> reads it; the title and the date may be absent.
\<close>

record Document =
  doc_title :: "string option"
  doc_amount :: int
  doc_kind :: kind
  doc_date :: "string option"

text \<open>\<^verbatim>\<open>x || ""\<close>.\<close>

definition orEmpty :: "string option \<Rightarrow> string" where
  "orEmpty x = (case x of None \<Rightarrow> [] | Some s \<Rightarrow> s)"

text \<open>\<^verbatim>\<open>s.replace(/\s+/g, " ")\<close>: every run of white space becomes one space.\<close>

function collapseWhiteSpace :: "string \<Rightarrow> string" where
  "collapseWhiteSpace [] = []"
| "collapseWhiteSpace (c # cs) =
     (if isWhiteSpace c then CHR '' '' # collapseWhiteSpace (dropWhile isWhiteSpace cs)
      else c # collapseWhiteSpace cs)"
  by pat_completeness auto
termination
proof (relation "measure length")
  show "wf (measure length)" by simp
next
  fix c :: char and cs :: string
  have "length (dropWhile isWhiteSpace cs) \<le> length cs" by (rule length_dropWhile_le)
  then show "(dropWhile isWhiteSpace cs, c # cs) \<in> measure length" by simp
next
  fix c :: char and cs :: string
  show "(cs, c # cs) \<in> measure length" by simp
qed

definition normalizeText :: "string \<Rightarrow> string" where
  "normalizeText s = trim (collapseWhiteSpace (toLowerCase s))"

definition normalizeDateForKey :: "clock \<Rightarrow> string \<Rightarrow> string" where
  "normalizeDateForKey parseDate value =
     (if value = [] then []
      else (case parseDate value of None \<Rightarrow> trim value | Some ms \<Rightarrow> isoDay ms))"

fun kindStr :: "kind \<Rightarrow> string" where
  "kindStr income = ''income''"
| "kindStr expense = ''expense''"

definition makeKeyFromTransaction :: "clock \<Rightarrow> ParsedTransaction \<Rightarrow> string" where
  "makeKeyFromTransaction parseDate t =
     normalizeText (title t) @ ''|'' @ showDigits \<bar>amount t\<bar> @ ''|'' @ kindStr (kind t) @ ''|''
       @ normalizeDateForKey parseDate (date t)"

definition makeKeyFromDoc :: "clock \<Rightarrow> Document \<Rightarrow> string" where
  "makeKeyFromDoc parseDate doc =
     normalizeText (orEmpty (doc_title doc)) @ ''|'' @ showDigits \<bar>doc_amount doc\<bar> @ ''|''
       @ kindStr (doc_kind doc) @ ''|'' @ normalizeDateForKey parseDate (orEmpty (doc_date doc))"

text \<open>
  The dedupe loop of \<^verbatim>\<open>handleImport\<close>; the set \<^verbatim>\<open>existingKeys\<close> is given by the list of
  its elements.
\<close>

fun dedupeLoop :: "clock \<Rightarrow> string list \<Rightarrow> ParsedTransaction list \<Rightarrow> ParsedTransaction list
    \<Rightarrow> ParsedTransaction list" where
  "dedupeLoop parseDate existingKeys [] deduped = deduped"
| "dedupeLoop parseDate existingKeys (t # ts) deduped =
     (if makeKeyFromTransaction parseDate t \<in> set existingKeys
      then dedupeLoop parseDate existingKeys ts deduped
      else dedupeLoop parseDate existingKeys ts (deduped @ [t]))"

definition dedupe :: "clock \<Rightarrow> Document list \<Rightarrow> ParsedTransaction list \<Rightarrow> ParsedTransaction list" where
  "dedupe parseDate existing transactions =
     dedupeLoop parseDate (map (makeKeyFromDoc parseDate) existing) transactions []"

lemma dedupeLoop_filter:
  "dedupeLoop parseDate ks ts acc
     = acc @ filter (\<lambda>t. makeKeyFromTransaction parseDate t \<notin> set ks) ts"
  by (induction ts arbitrary: acc) simp_all

lemma dedupe_filter:
  "dedupe parseDate existing ts
     = filter (\<lambda>t. makeKeyFromTransaction parseDate t \<notin> set (map (makeKeyFromDoc parseDate) existing)) ts"
  by (simp add: dedupe_def dedupeLoop_filter)

lemma kindStr_no_sep: "CHR ''|'' \<notin> set (kindStr k)"
  by (cases k) simp_all

lemma kindStr_inj: "kindStr a = kindStr b \<Longrightarrow> a = b"
  by (cases a; cases b) simp_all

lemma key_parts:
  assumes "CHR ''|'' \<notin> set d" and "CHR ''|'' \<notin> set d'"
    and "0 \<le> a" and "0 \<le> a'"
  shows "t @ ''|'' @ showDigits a @ ''|'' @ kindStr k @ ''|'' @ d
           = t' @ ''|'' @ showDigits a' @ ''|'' @ kindStr k' @ ''|'' @ d'
         \<longleftrightarrow> t = t' \<and> a = a' \<and> k = k' \<and> d = d'"
proof
  assume eq: "t @ ''|'' @ showDigits a @ ''|'' @ kindStr k @ ''|'' @ d
           = t' @ ''|'' @ showDigits a' @ ''|'' @ kindStr k' @ ''|'' @ d'"
  then have "(t @ ''|'' @ showDigits a @ ''|'' @ kindStr k) @ CHR ''|'' # d
           = (t' @ ''|'' @ showDigits a' @ ''|'' @ kindStr k') @ CHR ''|'' # d'"
    by simp
  from split_at_last [OF assms(1,2) this]
  have d: "d = d'" and 1: "(t @ ''|'' @ showDigits a) @ CHR ''|'' # kindStr k
      = (t' @ ''|'' @ showDigits a') @ CHR ''|'' # kindStr k'"
    by simp_all
  from split_at_last [OF kindStr_no_sep kindStr_no_sep 1]
  have k: "kindStr k = kindStr k'" and 2: "t @ CHR ''|'' # showDigits a = t' @ CHR ''|'' # showDigits a'"
    by simp_all
  from split_at_last [OF showDigits_no_sep(1) showDigits_no_sep(1) 2]
  have "t = t'" and "showDigits a = showDigits a'" by simp_all
  with d k assms(3,4) show "t = t' \<and> a = a' \<and> k = k' \<and> d = d'"
    by (auto dest: kindStr_inj showDigits_inj)
next
  assume "t = t' \<and> a = a' \<and> k = k' \<and> d = d'"
  then show "t @ ''|'' @ showDigits a @ ''|'' @ kindStr k @ ''|'' @ d
           = t' @ ''|'' @ showDigits a' @ ''|'' @ kindStr k' @ ''|'' @ d'"
    by simp
qed

lemma key_equal_iff:
  assumes "date t \<noteq> []" and "parseDate (date t) = Some m"
    and "doc_date e = Some d" and "d \<noteq> []" and "parseDate d = Some m'"
  shows "makeKeyFromTransaction parseDate t = makeKeyFromDoc parseDate e \<longleftrightarrow>
           normalizeText (title t) = normalizeText (orEmpty (doc_title e)) \<and>
           \<bar>amount t\<bar> = \<bar>doc_amount e\<bar> \<and> kind t = doc_kind e \<and> isoDay m = isoDay m'"
proof -
  have "normalizeDateForKey parseDate (date t) = isoDay m"
    "normalizeDateForKey parseDate (orEmpty (doc_date e)) = isoDay m'"
    using assms by (simp_all add: normalizeDateForKey_def orEmpty_def)
  then show ?thesis
    unfolding makeKeyFromTransaction_def makeKeyFromDoc_def
    using key_parts [OF isoDay_no_sep(1) [of m] isoDay_no_sep(1) [of m'], of "\<bar>amount t\<bar>" "\<bar>doc_amount e\<bar>"]
    by simp
qed


lemma dedupe_all_known:
  assumes "\<forall>t \<in> set C. makeKeyFromTransaction parseDate t \<in> set (map (makeKeyFromDoc parseDate) E)"
  shows "dedupe parseDate E C = []"
  using assms by (simp add: dedupe_filter filter_empty_conv)

lemma dedupe_second_run:
  assumes "\<forall>t. makeKeyFromDoc parseDate (store t) = makeKeyFromTransaction parseDate t"
  shows "dedupe parseDate (E @ map store (dedupe parseDate E C)) C = []"
proof (rule dedupe_all_known, rule ballI)
  fix t assume t: "t \<in> set C"
  show "makeKeyFromTransaction parseDate t
          \<in> set (map (makeKeyFromDoc parseDate) (E @ map store (dedupe parseDate E C)))"
  proof (cases "makeKeyFromTransaction parseDate t \<in> set (map (makeKeyFromDoc parseDate) E)")
    case True
    then show ?thesis by simp
  next
    case False
    with t have "t \<in> set (dedupe parseDate E C)" by (simp add: dedupe_filter)
    then have "makeKeyFromDoc parseDate (store t)
        \<in> set (map (makeKeyFromDoc parseDate) (map store (dedupe parseDate E C)))"
      by simp
    with assms show ?thesis by simp
  qed
qed

text \<open>
  A clock for the examples: the instants of five ISO-8601 texts, in milliseconds since
  1970-01-01T00:00:00Z; every other text is an invalid date.
\<close>

definition sampleClock :: clock where
  "sampleClock s =
     (if s = ''2024-03-01T00:00:00.000Z'' then Some 1709251200000
      else if s = ''2024-03-01T18:30:00.000Z'' then Some 1709317800000
      else if s = ''2024-03-02T00:00:00.000Z'' then Some 1709337600000
      else if s = ''2024-03-05T00:00:00.000Z'' then Some 1709596800000
      else if s = ''2024-03-06T00:00:00.000Z'' then Some 1709683200000
      else None)"

definition tx :: "string \<Rightarrow> int \<Rightarrow> kind \<Rightarrow> string \<Rightarrow> ParsedTransaction" where
  "tx ttl amt k d =
     \<lparr> title = ttl, subtitle = [], amount = amt, kind = k, date = d, categoryId = [],
       currency = ''EUR'', excludeFromAnalytics = None, isAnalyticsProtected = None \<rparr>"

text \<open>A store that keeps title, amount, kind and date as they are.\<close>

definition storeDoc :: "ParsedTransaction \<Rightarrow> Document" where
  "storeDoc t =
     \<lparr> doc_title = Some (title t), doc_amount = amount t, doc_kind = kind t,
       doc_date = Some (date t) \<rparr>"

lemma storeDoc_keeps_key:
  "makeKeyFromDoc parseDate (storeDoc t) = makeKeyFromTransaction parseDate t"
  by (simp add: makeKeyFromDoc_def makeKeyFromTransaction_def storeDoc_def orEmpty_def)

definition sampleHistory :: "Document list" where
  "sampleHistory =
     [\<lparr> doc_title = Some ''  COFFEE   Shop '', doc_amount = - 5000, doc_kind = expense,
        doc_date = Some ''2024-03-01T00:00:00.000Z'' \<rparr>]"

definition sampleBatch :: "ParsedTransaction list" where
  "sampleBatch =
     [tx ''Coffee shop'' 5000 expense ''2024-03-01T18:30:00.000Z'',
      tx ''Coffee shop'' 5001 expense ''2024-03-01T18:30:00.000Z'',
      tx ''Coffee shop'' 5000 expense ''2024-03-02T00:00:00.000Z'',
      tx ''Coffee shop'' 5000 income ''2024-03-01T18:30:00.000Z'']"

text \<open>
  C1.  The dedupe loop keeps exactly the candidates whose key is not the key of an existing
  record.  For a candidate and a record with valid dates the keys are equal exactly when the
  normalised titles, the absolute amounts, the kinds and the UTC calendar days are equal.
  If every candidate's key is the key of an existing record nothing is kept; in particular a
  second run, against the history extended by what the first run kept, keeps nothing when
  the store preserves the keys.
\<close>

theorem dedupe_exact_idempotent:
  "dedupe parseDate E C
     = filter (\<lambda>t. makeKeyFromTransaction parseDate t \<notin> set (map (makeKeyFromDoc parseDate) E)) C \<and>
   (date t \<noteq> [] \<and> parseDate (date t) = Some m \<and> doc_date e = Some d \<and> d \<noteq> [] \<and>
    parseDate d = Some m' \<longrightarrow>
      (makeKeyFromTransaction parseDate t = makeKeyFromDoc parseDate e \<longleftrightarrow>
         normalizeText (title t) = normalizeText (orEmpty (doc_title e)) \<and>
         \<bar>amount t\<bar> = \<bar>doc_amount e\<bar> \<and> kind t = doc_kind e \<and> isoDay m = isoDay m')) \<and>
   ((\<forall>t \<in> set C. makeKeyFromTransaction parseDate t \<in> set (map (makeKeyFromDoc parseDate) E))
      \<longrightarrow> dedupe parseDate E C = []) \<and>
   ((\<forall>t. makeKeyFromDoc parseDate (store t) = makeKeyFromTransaction parseDate t)
      \<longrightarrow> dedupe parseDate (E @ map store (dedupe parseDate E C)) C = [])"
  apply (intro conjI impI)
     apply (rule dedupe_filter)
    apply (rule key_equal_iff; (elim conjE)?; assumption)
   apply (erule dedupe_all_known)
  apply (erule dedupe_second_run)
  done

theorem dedupe_exact_idempotent_witness:
  "dedupe sampleClock sampleHistory sampleBatch
     = [tx ''Coffee shop'' 5001 expense ''2024-03-01T18:30:00.000Z'',
        tx ''Coffee shop'' 5000 expense ''2024-03-02T00:00:00.000Z'',
        tx ''Coffee shop'' 5000 income ''2024-03-01T18:30:00.000Z''] \<and>
   makeKeyFromTransaction sampleClock (sampleBatch ! 0) = makeKeyFromDoc sampleClock (sampleHistory ! 0) \<and>
   makeKeyFromDoc sampleClock (sampleHistory ! 0) = ''coffee shop|5000|expense|2024-03-01'' \<and>
   dedupe sampleClock (sampleHistory @ map storeDoc (dedupe sampleClock sampleHistory sampleBatch))
     sampleBatch = []"
proof -
  note T = dedupe_exact_idempotent [of sampleClock sampleHistory sampleBatch "sampleBatch ! 0"
      1709317800000 "sampleHistory ! 0" "''2024-03-01T00:00:00.000Z''" 1709251200000 storeDoc]
  have first: "filter (\<lambda>t. makeKeyFromTransaction sampleClock t
        \<notin> set (map (makeKeyFromDoc sampleClock) sampleHistory)) sampleBatch
     = [tx ''Coffee shop'' 5001 expense ''2024-03-01T18:30:00.000Z'',
        tx ''Coffee shop'' 5000 expense ''2024-03-02T00:00:00.000Z'',
        tx ''Coffee shop'' 5000 income ''2024-03-01T18:30:00.000Z'']"
    by code_simp
  have hyp: "date (sampleBatch ! 0) \<noteq> [] \<and>
      sampleClock (date (sampleBatch ! 0)) = Some 1709317800000 \<and>
      doc_date (sampleHistory ! 0) = Some ''2024-03-01T00:00:00.000Z'' \<and>
      ''2024-03-01T00:00:00.000Z'' \<noteq> [] \<and>
      sampleClock ''2024-03-01T00:00:00.000Z'' = Some 1709251200000"
    by code_simp
  have parts: "normalizeText (title (sampleBatch ! 0))
        = normalizeText (orEmpty (doc_title (sampleHistory ! 0))) \<and>
      \<bar>amount (sampleBatch ! 0)\<bar> = \<bar>doc_amount (sampleHistory ! 0)\<bar> \<and>
      kind (sampleBatch ! 0) = doc_kind (sampleHistory ! 0) \<and>
      isoDay 1709317800000 = isoDay 1709251200000"
    by code_simp
  have key: "makeKeyFromDoc sampleClock (sampleHistory ! 0) = ''coffee shop|5000|expense|2024-03-01''"
    by code_simp
  from conjunct1 [OF T] first
  have a: "dedupe sampleClock sampleHistory sampleBatch
     = [tx ''Coffee shop'' 5001 expense ''2024-03-01T18:30:00.000Z'',
        tx ''Coffee shop'' 5000 expense ''2024-03-02T00:00:00.000Z'',
        tx ''Coffee shop'' 5000 income ''2024-03-01T18:30:00.000Z'']"
    by (simp only:)
  from conjunct1 [OF conjunct2 [OF T], rule_format, OF hyp] parts
  have b: "makeKeyFromTransaction sampleClock (sampleBatch ! 0)
      = makeKeyFromDoc sampleClock (sampleHistory ! 0)"
    by (simp only: simp_thms)
  from conjunct2 [OF conjunct2 [OF conjunct2 [OF T]], rule_format] storeDoc_keeps_key
  have c: "dedupe sampleClock
      (sampleHistory @ map storeDoc (dedupe sampleClock sampleHistory sampleBatch)) sampleBatch = []"
    by blast
  from a b key c show ?thesis by (intro conjI)
qed


section \<open>Transfer detection against existing records (csvParser.ts)\<close>

text \<open>
  A JavaScript \<^verbatim>\<open>Set\<close> of numbers, as the list of its elements in insertion order.
\<close>

definition setAdd :: "nat list \<Rightarrow> nat \<Rightarrow> nat list" where
  "setAdd s x = (if x \<in> set s then s else s @ [x])"

text \<open>\<^verbatim>\<open>toISOString\<close> throws a \<^verbatim>\<open>RangeError\<close> on an invalid date.\<close>

definition rangeError :: error where
  "rangeError = Error ''Invalid time value''"

definition msPerDay :: rat where
  "msPerDay = 1000 * 60 * 60 * 24"

datatype source = aib_import | revolut_import

text \<open>
  The result of \<^verbatim>\<open>detectAibTransfers\<close> and \<^verbatim>\<open>detectCrossBankTransfers\<close>; a pair
  \<^verbatim>\<open>{ newIndex, existingIndex }\<close> is the pair \<open>(newIndex, existingIndex)\<close>.
\<close>

record TransferMatch =
  newIndices :: "nat list"
  existingIndices :: "nat list"
  matchPairs :: "(nat \<times> nat) list"

subsection \<open>Cross-provider transfers\<close>

text \<open>
  The inner \<^verbatim>\<open>for\<close> loop of \<^verbatim>\<open>detectCrossBankTransfers\<close> over the existing transactions
  with their indices: \<open>Inr (Some i)\<close> is the \<^verbatim>\<open>break\<close> at index \<open>i\<close>, \<open>Inr None\<close> the end of
  the loop without a match.
\<close>

fun crossScan :: "clock \<Rightarrow> ParsedTransaction \<Rightarrow> int \<Rightarrow> (nat \<times> ParsedTransaction) list
    \<Rightarrow> nat list \<Rightarrow> error + nat option" where
  "crossScan parseDate newTx newDateTime [] matchedExistingIndices = Inr None"
| "crossScan parseDate newTx newDateTime ((existingIndex, existingTx) # rest) matchedExistingIndices =
     (if existingIndex \<in> set matchedExistingIndices
      then crossScan parseDate newTx newDateTime rest matchedExistingIndices
      else
        (case parseDate (date existingTx) of
           None \<Rightarrow> Inl rangeError
         | Some existingDateTime \<Rightarrow>
             if of_int \<bar>newDateTime - existingDateTime\<bar> / msPerDay > 4
             then crossScan parseDate newTx newDateTime rest matchedExistingIndices
             else if \<bar>amount newTx\<bar> \<noteq> \<bar>amount existingTx\<bar>
             then crossScan parseDate newTx newDateTime rest matchedExistingIndices
             else if currency newTx \<noteq> currency existingTx
             then crossScan parseDate newTx newDateTime rest matchedExistingIndices
             else if kind newTx = kind existingTx
             then crossScan parseDate newTx newDateTime rest matchedExistingIndices
             else Inr (Some existingIndex)))"

text \<open>
  The \<^verbatim>\<open>forEach\<close> over the new transactions; the state is the three sets and the list of
  pairs.
\<close>

fun crossLoop :: "clock \<Rightarrow> ParsedTransaction list \<Rightarrow> (nat \<times> ParsedTransaction) list
    \<Rightarrow> nat list \<times> nat list \<times> nat list \<times> (nat \<times> nat) list
    \<Rightarrow> error + nat list \<times> nat list \<times> nat list \<times> (nat \<times> nat) list" where
  "crossLoop parseDate existingTransactions [] st = Inr st"
| "crossLoop parseDate existingTransactions ((newIndex, newTx) # rest)
     (newTransferIndices, existingTransferIndices, matchedExistingIndices, pairs) =
     (case parseDate (date newTx) of
        None \<Rightarrow> Inl rangeError
      | Some newDateTime \<Rightarrow>
          (case crossScan parseDate newTx newDateTime (enumerate 0 existingTransactions)
                  matchedExistingIndices of
             Inl e \<Rightarrow> Inl e
           | Inr None \<Rightarrow>
               crossLoop parseDate existingTransactions rest
                 (newTransferIndices, existingTransferIndices, matchedExistingIndices, pairs)
           | Inr (Some existingIndex) \<Rightarrow>
               crossLoop parseDate existingTransactions rest
                 (setAdd newTransferIndices newIndex,
                  setAdd existingTransferIndices existingIndex,
                  setAdd matchedExistingIndices existingIndex,
                  pairs @ [(newIndex, existingIndex)])))"

definition detectCrossBankTransfers :: "clock \<Rightarrow> ParsedTransaction list \<Rightarrow> ParsedTransaction list
    \<Rightarrow> source \<Rightarrow> source \<Rightarrow> error + TransferMatch" where
  "detectCrossBankTransfers parseDate newTransactions existingTransactions newSource existingSource =
     (case crossLoop parseDate existingTransactions (enumerate 0 newTransactions) ([], [], [], []) of
        Inl e \<Rightarrow> Inl e
      | Inr (newTransferIndices, existingTransferIndices, matchedExistingIndices, pairs) \<Rightarrow>
          Inr \<lparr> newIndices = newTransferIndices, existingIndices = existingTransferIndices,
                matchPairs = pairs \<rparr>)"

subsection \<open>Provider-specific internal transfers\<close>

definition marked :: "ParsedTransaction \<Rightarrow> bool" where
  "marked t = includesStr (title t) ''*MOBI''"

fun aibScan :: "clock \<Rightarrow> ParsedTransaction \<Rightarrow> string \<Rightarrow> (nat \<times> ParsedTransaction) list
    \<Rightarrow> nat list \<Rightarrow> error + nat option" where
  "aibScan parseDate newTx newDate [] matchedExistingIndices = Inr None"
| "aibScan parseDate newTx newDate ((existingIndex, existingTx) # rest) matchedExistingIndices =
     (if existingIndex \<in> set matchedExistingIndices
      then aibScan parseDate newTx newDate rest matchedExistingIndices
      else if \<not> marked existingTx
      then aibScan parseDate newTx newDate rest matchedExistingIndices
      else
        (case parseDate (date existingTx) of
           None \<Rightarrow> Inl rangeError
         | Some existingDateTime \<Rightarrow>
             if newDate = isoDay existingDateTime \<and>
                \<bar>amount newTx\<bar> = \<bar>amount existingTx\<bar> \<and>
                currency newTx = currency existingTx \<and>
                kind newTx \<noteq> kind existingTx
             then Inr (Some existingIndex)
             else aibScan parseDate newTx newDate rest matchedExistingIndices))"

fun aibLoop :: "clock \<Rightarrow> ParsedTransaction list \<Rightarrow> (nat \<times> ParsedTransaction) list
    \<Rightarrow> nat list \<times> nat list \<times> nat list \<times> (nat \<times> nat) list
    \<Rightarrow> error + nat list \<times> nat list \<times> nat list \<times> (nat \<times> nat) list" where
  "aibLoop parseDate existingTransactions [] st = Inr st"
| "aibLoop parseDate existingTransactions ((newIndex, newTx) # rest)
     (newTransferIndices, existingTransferIndices, matchedExistingIndices, pairs) =
     (if \<not> marked newTx
      then aibLoop parseDate existingTransactions rest
             (newTransferIndices, existingTransferIndices, matchedExistingIndices, pairs)
      else
        (case parseDate (date newTx) of
           None \<Rightarrow> Inl rangeError
         | Some newDateTime \<Rightarrow>
             (case aibScan parseDate newTx (isoDay newDateTime) (enumerate 0 existingTransactions)
                     matchedExistingIndices of
                Inl e \<Rightarrow> Inl e
              | Inr None \<Rightarrow>
                  aibLoop parseDate existingTransactions rest
                    (newTransferIndices, existingTransferIndices, matchedExistingIndices, pairs)
              | Inr (Some existingIndex) \<Rightarrow>
                  aibLoop parseDate existingTransactions rest
                    (setAdd newTransferIndices newIndex,
                     setAdd existingTransferIndices existingIndex,
                     setAdd matchedExistingIndices existingIndex,
                     pairs @ [(newIndex, existingIndex)]))))"

definition detectAibTransfers :: "clock \<Rightarrow> ParsedTransaction list \<Rightarrow> ParsedTransaction list
    \<Rightarrow> error + TransferMatch" where
  "detectAibTransfers parseDate newTransactions existingTransactions =
     (case aibLoop parseDate existingTransactions (enumerate 0 newTransactions) ([], [], [], []) of
        Inl e \<Rightarrow> Inl e
      | Inr (newTransferIndices, existingTransferIndices, matchedExistingIndices, pairs) \<Rightarrow>
          Inr \<lparr> newIndices = newTransferIndices, existingIndices = existingTransferIndices,
                matchPairs = pairs \<rparr>)"


subsection \<open>The matching discipline\<close>

text \<open>
  The discipline of both routines in the words of the specification: the new indices are
  taken in order, and each is paired with the first existing index that is not yet consumed
  and is eligible for it, which is thereby consumed.
\<close>


fun greedy :: "(nat \<Rightarrow> nat \<Rightarrow> bool) \<Rightarrow> nat \<Rightarrow> nat list \<Rightarrow> (nat \<times> nat) list \<Rightarrow> (nat \<times> nat) list" where
  "greedy elig nE [] ps = ps"
| "greedy elig nE (n # ns) ps =
     (case find (\<lambda>e. e \<notin> set (map snd ps) \<and> elig n e) [0..<nE] of
        None \<Rightarrow> greedy elig nE ns ps
      | Some e \<Rightarrow> greedy elig nE ns (ps @ [(n, e)]))"

definition greedyInv :: "(nat \<Rightarrow> nat \<Rightarrow> bool) \<Rightarrow> nat \<Rightarrow> nat \<Rightarrow> (nat \<times> nat) list \<Rightarrow> bool" where
  "greedyInv elig nE k ps =
     (sorted_wrt (<) (map fst ps) \<and> distinct (map snd ps) \<and>
      (\<forall>(n, e) \<in> set ps. n < k \<and> e < nE \<and> elig n e \<and>
         (\<forall>e' < e. elig n e' \<longrightarrow> (\<exists>n' < n. (n', e') \<in> set ps))) \<and>
      (\<forall>n < k. n \<notin> fst ` set ps \<longrightarrow>
         (\<forall>e < nE. elig n e \<longrightarrow> (\<exists>n' < n. (n', e) \<in> set ps))))"

lemma find_upt_None:
  "find P [0..<n] = None \<longleftrightarrow> (\<forall>e < n. \<not> P e)"
  by (auto simp add: find_None_iff)

lemma find_upt_Some:
  "find P [0..<n] = Some e \<longleftrightarrow> e < n \<and> P e \<and> (\<forall>e' < e. \<not> P e')"
  by (auto simp add: find_Some_iff)

lemma greedyInv_init: "greedyInv elig nE 0 []"
  by (simp add: greedyInv_def)

lemma greedyInv_skip:
  assumes inv: "greedyInv elig nE k ps"
    and none: "\<forall>e < nE. \<not> (e \<notin> set (map snd ps) \<and> elig k e)"
  shows "greedyInv elig nE (Suc k) ps"
proof -
  have old: "\<forall>(n, e) \<in> set ps. n < k" using inv by (auto simp add: greedyInv_def)
  have "\<exists>n' < k. (n', e) \<in> set ps" if "e < nE" "elig k e" for e
  proof -
    from none that have "e \<in> set (map snd ps)" by blast
    then obtain n' where "(n', e) \<in> set ps" by auto
    with old show ?thesis by blast
  qed
  moreover have "k \<notin> fst ` set ps" using old by auto
  ultimately show ?thesis
    using inv unfolding greedyInv_def
    by (auto simp add: less_Suc_eq)
qed

lemma greedyInv_take:
  assumes inv: "greedyInv elig nE k ps"
    and e: "e < nE" "e \<notin> set (map snd ps)" "elig k e"
    and first: "\<forall>e' < e. \<not> (e' \<notin> set (map snd ps) \<and> elig k e')"
  shows "greedyInv elig nE (Suc k) (ps @ [(k, e)])"
proof -
  have old: "\<forall>(n, e) \<in> set ps. n < k" using inv by (auto simp add: greedyInv_def)
  have 1: "sorted_wrt (<) (map fst (ps @ [(k, e)]))"
    using inv old by (auto simp add: greedyInv_def sorted_wrt_append)
  have 2: "distinct (map snd (ps @ [(k, e)]))"
    using inv e(2) by (auto simp add: greedyInv_def)
  have new: "\<exists>n' < k. (n', e') \<in> set (ps @ [(k, e)])" if "e' < e" "elig k e'" for e'
  proof -
    from first that have "e' \<in> set (map snd ps)" by blast
    then obtain n' where "(n', e') \<in> set ps" by auto
    with old show ?thesis by auto
  qed
  have 3: "\<forall>(n, e0) \<in> set (ps @ [(k, e)]). n < Suc k \<and> e0 < nE \<and> elig n e0 \<and>
         (\<forall>e' < e0. elig n e' \<longrightarrow> (\<exists>n' < n. (n', e') \<in> set (ps @ [(k, e)])))"
  proof (clarify)
    fix n e0 assume m: "(n, e0) \<in> set (ps @ [(k, e)])"
    show "n < Suc k \<and> e0 < nE \<and> elig n e0 \<and>
         (\<forall>e' < e0. elig n e' \<longrightarrow> (\<exists>n' < n. (n', e') \<in> set (ps @ [(k, e)])))"
    proof (cases "(n, e0) \<in> set ps")
      case True
      with inv have "n < k \<and> e0 < nE \<and> elig n e0 \<and>
         (\<forall>e' < e0. elig n e' \<longrightarrow> (\<exists>n' < n. (n', e') \<in> set ps))"
        unfolding greedyInv_def by blast
      then show ?thesis by auto
    next
      case False
      with m have "n = k" "e0 = e" by auto
      with e new show ?thesis by auto
    qed
  qed
  have 4: "\<forall>n < Suc k. n \<notin> fst ` set (ps @ [(k, e)]) \<longrightarrow>
         (\<forall>e0 < nE. elig n e0 \<longrightarrow> (\<exists>n' < n. (n', e0) \<in> set (ps @ [(k, e)])))"
  proof (intro allI impI)
    fix n e0 assume n: "n < Suc k" "n \<notin> fst ` set (ps @ [(k, e)])" and e0: "e0 < nE" "elig n e0"
    from n have "n < k" "n \<notin> fst ` set ps" by (auto simp add: less_Suc_eq)
    with inv e0 have "\<exists>n' < n. (n', e0) \<in> set ps" unfolding greedyInv_def by blast
    then show "\<exists>n' < n. (n', e0) \<in> set (ps @ [(k, e)])" by auto
  qed
  from 1 2 3 4 show ?thesis unfolding greedyInv_def by blast
qed

lemma greedyInv_upt:
  "j \<le> k \<Longrightarrow> greedyInv elig nE j ps \<Longrightarrow> greedyInv elig nE k (greedy elig nE [j..<k] ps)"
proof (induction "k - j" arbitrary: j ps)
  case 0
  then show ?case by simp
next
  case (Suc d)
  then have lt: "j < k" and d: "d = k - Suc j" and le: "Suc j \<le> k" by arith+
  have upt: "[j..<k] = j # [Suc j..<k]" using lt by (simp add: upt_conv_Cons)
  show ?case
  proof (cases "find (\<lambda>e. e \<notin> set (map snd ps) \<and> elig j e) [0..<nE]")
    case None
    then have "greedyInv elig nE (Suc j) ps"
      using greedyInv_skip [OF Suc.prems(2)] by (simp add: find_upt_None)
    from Suc.hyps(1) [OF d le this] None show ?thesis by (simp add: upt)
  next
    case (Some e)
    then have "greedyInv elig nE (Suc j) (ps @ [(j, e)])"
      using greedyInv_take [OF Suc.prems(2), of e] by (simp add: find_upt_Some)
    from Suc.hyps(1) [OF d le this] Some show ?thesis by (simp add: upt)
  qed
qed

lemma greedy_correct:
  "greedyInv elig nE nN (greedy elig nE [0..<nN] [])"
  by (rule greedyInv_upt [OF _ greedyInv_init]) simp


text \<open>
  Eligibility of a new transaction \<open>a\<close> and an existing transaction \<open>b\<close> for the two
  routines: opposite kinds, equal absolute amounts and equal currencies; for the cross-provider
  routine instants at most 4 days apart, for the provider-specific routine the marker in both
  titles and the same UTC calendar day.
\<close>

definition crossEligible :: "clock \<Rightarrow> ParsedTransaction \<Rightarrow> ParsedTransaction \<Rightarrow> bool" where
  "crossEligible parseDate a b =
     (kind a \<noteq> kind b \<and> \<bar>amount a\<bar> = \<bar>amount b\<bar> \<and> currency a = currency b \<and>
      (case parseDate (date a) of
         None \<Rightarrow> False
       | Some x \<Rightarrow> (case parseDate (date b) of None \<Rightarrow> False | Some y \<Rightarrow> \<bar>x - y\<bar> \<le> 4 * 86400000)))"

definition aibEligible :: "clock \<Rightarrow> ParsedTransaction \<Rightarrow> ParsedTransaction \<Rightarrow> bool" where
  "aibEligible parseDate a b =
     (marked a \<and> marked b \<and>
      kind a \<noteq> kind b \<and> \<bar>amount a\<bar> = \<bar>amount b\<bar> \<and> currency a = currency b \<and>
      (case parseDate (date a) of
         None \<Rightarrow> False
       | Some x \<Rightarrow> (case parseDate (date b) of None \<Rightarrow> False | Some y \<Rightarrow> isoDay x = isoDay y)))"

lemma days_apart: "of_int \<bar>x - y\<bar> / msPerDay > 4 \<longleftrightarrow> \<not> \<bar>x - y\<bar> \<le> 4 * 86400000"
proof -
  have "(of_int \<bar>x - y\<bar> :: rat) / 86400000 > 4 \<longleftrightarrow> (of_int \<bar>x - y\<bar> :: rat) > 4 * 86400000"
    by (simp add: pos_less_divide_eq)
  also have "\<dots> \<longleftrightarrow> (of_int \<bar>x - y\<bar> :: rat) > of_int (4 * 86400000)" by simp
  also have "\<dots> \<longleftrightarrow> \<bar>x - y\<bar> > 4 * 86400000" by (simp only: of_int_less_iff)
  finally show ?thesis by (simp add: msPerDay_def not_le)
qed

lemma find_shift:
  "find (\<lambda>e. Q e ((x # xs) ! (e - j))) [Suc j..<Suc j + length xs]
     = find (\<lambda>e. Q e (xs ! (e - Suc j))) [Suc j..<Suc j + length xs]"
  by (rule find_cong) (auto simp add: nth_Cons' Suc_diff_le)

lemma crossScan_head:
  assumes "parseDate (date newTx) = Some nms" and "parseDate (date x) = Some xms"
  shows "crossScan parseDate newTx nms ((j, x) # rest) matched
           = (if j \<notin> set matched \<and> crossEligible parseDate newTx x then Inr (Some j)
              else crossScan parseDate newTx nms rest matched)"
  using assms by (simp add: crossEligible_def days_apart del: of_int_abs of_int_diff)

lemma aibScan_head:
  assumes "parseDate (date newTx) = Some nms" and "parseDate (date x) = Some xms"
    and "marked newTx"
  shows "aibScan parseDate newTx (isoDay nms) ((j, x) # rest) matched
           = (if j \<notin> set matched \<and> aibEligible parseDate newTx x then Inr (Some j)
              else aibScan parseDate newTx (isoDay nms) rest matched)"
  using assms by (auto simp add: aibEligible_def)

lemma crossScan_find:
  assumes "\<forall>t \<in> set exs. parseDate (date t) \<noteq> None" and "parseDate (date newTx) = Some nms"
  shows "crossScan parseDate newTx nms (enumerate j exs) matched
           = Inr (find (\<lambda>e. e \<notin> set matched \<and> crossEligible parseDate newTx (exs ! (e - j)))
                    [j..<j + length exs])"
  using assms(1)
proof (induction exs arbitrary: j)
  case Nil
  then show ?case by simp
next
  case (Cons x xs)
  from Cons.prems obtain xms where x: "parseDate (date x) = Some xms" by auto
  have "[j..<Suc (j + length xs)] = j # [Suc j..<Suc (j + length xs)]"
    by (rule upt_conv_Cons) simp
  then have upt: "[j..<j + length (x # xs)] = j # [Suc j..<Suc j + length xs]"
    by simp
  have IH: "crossScan parseDate newTx nms (enumerate (Suc j) xs) matched
      = Inr (find (\<lambda>e. e \<notin> set matched \<and> crossEligible parseDate newTx ((x # xs) ! (e - j)))
                    [Suc j..<Suc j + length xs])"
    unfolding find_shift [of "\<lambda>e t. e \<notin> set matched \<and> crossEligible parseDate newTx t" x xs j]
    by (rule Cons.IH) (use Cons.prems in simp)
  show ?case
    unfolding upt
    by (simp add: crossScan_head [OF assms(2) x] IH del: crossScan.simps)
qed

lemma aibScan_find:
  assumes "\<forall>t \<in> set exs. parseDate (date t) \<noteq> None" and "parseDate (date newTx) = Some nms"
    and "marked newTx"
  shows "aibScan parseDate newTx (isoDay nms) (enumerate j exs) matched
           = Inr (find (\<lambda>e. e \<notin> set matched \<and> aibEligible parseDate newTx (exs ! (e - j)))
                    [j..<j + length exs])"
  using assms(1)
proof (induction exs arbitrary: j)
  case Nil
  then show ?case by simp
next
  case (Cons x xs)
  from Cons.prems obtain xms where x: "parseDate (date x) = Some xms" by auto
  have "[j..<Suc (j + length xs)] = j # [Suc j..<Suc (j + length xs)]"
    by (rule upt_conv_Cons) simp
  then have upt: "[j..<j + length (x # xs)] = j # [Suc j..<Suc j + length xs]"
    by simp
  have IH: "aibScan parseDate newTx (isoDay nms) (enumerate (Suc j) xs) matched
      = Inr (find (\<lambda>e. e \<notin> set matched \<and> aibEligible parseDate newTx ((x # xs) ! (e - j)))
                    [Suc j..<Suc j + length xs])"
    unfolding find_shift [of "\<lambda>e t. e \<notin> set matched \<and> aibEligible parseDate newTx t" x xs j]
    by (rule Cons.IH) (use Cons.prems in simp)
  show ?case
    unfolding upt
    by (simp add: aibScan_head [OF assms(2) x assms(3)] IH del: aibScan.simps)
qed


lemma setAdd_fresh: "x \<notin> set s \<Longrightarrow> setAdd s x = s @ [x]"
  by (simp add: setAdd_def)

definition stateOf :: "(nat \<times> nat) list \<Rightarrow> nat list \<times> nat list \<times> nat list \<times> (nat \<times> nat) list" where
  "stateOf ps = (map fst ps, map snd ps, map snd ps, ps)"

lemma crossLoop_greedy:
  assumes ex: "\<forall>t \<in> set ex. parseDate (date t) \<noteq> None"
    and new: "\<forall>t \<in> set new. parseDate (date t) \<noteq> None"
  shows "k \<le> length new \<Longrightarrow> \<forall>p \<in> set ps. fst p < k \<Longrightarrow>
         crossLoop parseDate ex (enumerate k (drop k new)) (stateOf ps)
           = Inr (stateOf (greedy (\<lambda>n e. crossEligible parseDate (new ! n) (ex ! e)) (length ex)
                    [k..<length new] ps))"
proof (induction "length new - k" arbitrary: k ps)
  case 0
  then show ?case by simp
next
  case (Suc d)
  then have lt: "k < length new" and d: "d = length new - Suc k" and le: "Suc k \<le> length new"
    by arith+
  have dr: "drop k new = new ! k # drop (Suc k) new"
    using lt by (simp add: Cons_nth_drop_Suc)
  have upt: "[k..<length new] = k # [Suc k..<length new]"
    using lt by (simp add: upt_conv_Cons)
  from new lt obtain nms where nms: "parseDate (date (new ! k)) = Some nms"
    by (metis nth_mem option.exhaust)
  have fresh: "k \<notin> set (map fst ps)" using Suc.prems(2) by auto
  let ?P = "\<lambda>e. e \<notin> set (map snd ps) \<and> crossEligible parseDate (new ! k) (ex ! e)"
  have scan: "crossScan parseDate (new ! k) nms (enumerate 0 ex) (map snd ps)
      = Inr (find ?P [0..<length ex])"
    using crossScan_find [OF ex nms, of 0 "map snd ps"] by simp
  have step: "crossLoop parseDate ex ((k, new ! k) # rest) (stateOf ps)
      = (case find ?P [0..<length ex] of
           None \<Rightarrow> crossLoop parseDate ex rest (stateOf ps)
         | Some e \<Rightarrow> crossLoop parseDate ex rest
             (setAdd (map fst ps) k, setAdd (map snd ps) e, setAdd (map snd ps) e, ps @ [(k, e)]))"
    for rest
    by (simp add: stateOf_def nms scan split: option.splits)
  show ?case
  proof (cases "find ?P [0..<length ex]")
    case None
    have "\<forall>p \<in> set ps. fst p < Suc k" using Suc.prems(2) by auto
    from Suc.hyps(1) [OF d le this] None step show ?thesis
      by (simp add: dr upt stateOf_def)
  next
    case (Some e)
    then have e: "e \<notin> set (map snd ps)" by (simp add: find_upt_Some)
    have "\<forall>p \<in> set (ps @ [(k, e)]). fst p < Suc k" using Suc.prems(2) by auto
    from Suc.hyps(1) [OF d le this] Some step e fresh show ?thesis
      by (simp add: dr upt stateOf_def setAdd_fresh)
  qed
qed

lemma aibLoop_greedy:
  assumes ex: "\<forall>t \<in> set ex. parseDate (date t) \<noteq> None"
    and new: "\<forall>t \<in> set new. parseDate (date t) \<noteq> None"
  shows "k \<le> length new \<Longrightarrow> \<forall>p \<in> set ps. fst p < k \<Longrightarrow>
         aibLoop parseDate ex (enumerate k (drop k new)) (stateOf ps)
           = Inr (stateOf (greedy (\<lambda>n e. aibEligible parseDate (new ! n) (ex ! e)) (length ex)
                    [k..<length new] ps))"
proof (induction "length new - k" arbitrary: k ps)
  case 0
  then show ?case by simp
next
  case (Suc d)
  then have lt: "k < length new" and d: "d = length new - Suc k" and le: "Suc k \<le> length new"
    by arith+
  have dr: "drop k new = new ! k # drop (Suc k) new"
    using lt by (simp add: Cons_nth_drop_Suc)
  have upt: "[k..<length new] = k # [Suc k..<length new]"
    using lt by (simp add: upt_conv_Cons)
  from new lt obtain nms where nms: "parseDate (date (new ! k)) = Some nms"
    by (metis nth_mem option.exhaust)
  have fresh: "k \<notin> set (map fst ps)" using Suc.prems(2) by auto
  let ?P = "\<lambda>e. e \<notin> set (map snd ps) \<and> aibEligible parseDate (new ! k) (ex ! e)"
  have unmarked: "find ?P [0..<length ex] = None" if "\<not> marked (new ! k)"
    using that by (simp add: find_upt_None aibEligible_def)
  have scan: "aibScan parseDate (new ! k) (isoDay nms) (enumerate 0 ex) (map snd ps)
      = Inr (find ?P [0..<length ex])" if "marked (new ! k)"
    using aibScan_find [OF ex nms that, of 0 "map snd ps"] by simp
  have step: "aibLoop parseDate ex ((k, new ! k) # rest) (stateOf ps)
      = (case find ?P [0..<length ex] of
           None \<Rightarrow> aibLoop parseDate ex rest (stateOf ps)
         | Some e \<Rightarrow> aibLoop parseDate ex rest
             (setAdd (map fst ps) k, setAdd (map snd ps) e, setAdd (map snd ps) e, ps @ [(k, e)]))"
    for rest
  proof (cases "marked (new ! k)")
    case True
    then show ?thesis by (simp add: stateOf_def nms scan split: option.splits)
  next
    case False
    with unmarked [OF False] show ?thesis by (simp add: stateOf_def)
  qed
  show ?case
  proof (cases "find ?P [0..<length ex]")
    case None
    have "\<forall>p \<in> set ps. fst p < Suc k" using Suc.prems(2) by auto
    from Suc.hyps(1) [OF d le this] None step show ?thesis
      by (simp add: dr upt stateOf_def)
  next
    case (Some e)
    then have e: "e \<notin> set (map snd ps)" by (simp add: find_upt_Some)
    have "\<forall>p \<in> set (ps @ [(k, e)]). fst p < Suc k" using Suc.prems(2) by auto
    from Suc.hyps(1) [OF d le this] Some step e fresh show ?thesis
      by (simp add: dr upt stateOf_def setAdd_fresh)
  qed
qed

lemma detectCrossBankTransfers_greedy:
  assumes "\<forall>t \<in> set ex. parseDate (date t) \<noteq> None"
    and "\<forall>t \<in> set new. parseDate (date t) \<noteq> None"
  shows "detectCrossBankTransfers parseDate new ex newSource existingSource
           = Inr (let ps = greedy (\<lambda>n e. crossEligible parseDate (new ! n) (ex ! e)) (length ex)
                             [0..<length new] []
                  in \<lparr> newIndices = map fst ps, existingIndices = map snd ps, matchPairs = ps \<rparr>)"
  using crossLoop_greedy [OF assms, of 0 "[]"]
  by (simp add: detectCrossBankTransfers_def stateOf_def Let_def)

lemma detectAibTransfers_greedy:
  assumes "\<forall>t \<in> set ex. parseDate (date t) \<noteq> None"
    and "\<forall>t \<in> set new. parseDate (date t) \<noteq> None"
  shows "detectAibTransfers parseDate new ex
           = Inr (let ps = greedy (\<lambda>n e. aibEligible parseDate (new ! n) (ex ! e)) (length ex)
                             [0..<length new] []
                  in \<lparr> newIndices = map fst ps, existingIndices = map snd ps, matchPairs = ps \<rparr>)"
  using aibLoop_greedy [OF assms, of 0 "[]"]
  by (simp add: detectAibTransfers_def stateOf_def Let_def)


lemma greedy_single:
  "greedy elig nE [0..<Suc 0] [] = (case find (elig 0) [0..<nE] of None \<Rightarrow> [] | Some e \<Rightarrow> [(0, e)])"
  by (simp split: option.splits)

lemma matching_properties:
  fixes elig :: "nat \<Rightarrow> nat \<Rightarrow> bool" and nE nN :: nat
  defines "ps \<equiv> greedy elig nE [0..<nN] []"
  shows "sorted_wrt (<) (map fst ps)" and "distinct (map snd ps)"
    and "\<forall>(n, e) \<in> set ps. n < nN \<and> e < nE \<and> elig n e \<and>
           (\<forall>e' < e. elig n e' \<longrightarrow> (\<exists>n' < n. (n', e') \<in> set ps))"
    and "\<forall>n < nN. n \<notin> set (map fst ps) \<longrightarrow>
           (\<forall>e < nE. elig n e \<longrightarrow> (\<exists>n' < n. (n', e) \<in> set ps))"
  using greedy_correct [of elig nE nN] unfolding greedyInv_def ps_def by simp_all

text \<open>
  C5.  With valid dates \<^verbatim>\<open>detectCrossBankTransfers\<close> returns; every new index is paired at
  most once and every existing index is consumed at most once; a pair is made only of two
  transactions of opposite kind, equal absolute amount, equal currency and instants at most
  4 days apart, with the first such existing transaction not consumed by an earlier new one;
  a new transaction stays unmatched only when every existing transaction eligible for it
  was consumed earlier.  One new and one existing transaction that agree otherwise are
  matched when exactly 4 days apart and are not matched when 5 days apart.
\<close>

theorem cross_bank_matching:
  assumes "\<forall>t \<in> set new \<union> set ex. parseDate (date t) \<noteq> None"
  shows "(\<exists>r. detectCrossBankTransfers parseDate new ex newSource existingSource = Inr r \<and>
            newIndices r = map fst (matchPairs r) \<and> existingIndices r = map snd (matchPairs r) \<and>
            sorted_wrt (<) (newIndices r) \<and> distinct (existingIndices r) \<and>
            (\<forall>(n, e) \<in> set (matchPairs r).
               n < length new \<and> e < length ex \<and> crossEligible parseDate (new ! n) (ex ! e) \<and>
               (\<forall>e' < e. crossEligible parseDate (new ! n) (ex ! e')
                  \<longrightarrow> (\<exists>n' < n. (n', e') \<in> set (matchPairs r)))) \<and>
            (\<forall>n < length new. n \<notin> set (newIndices r) \<longrightarrow>
               (\<forall>e < length ex. crossEligible parseDate (new ! n) (ex ! e)
                  \<longrightarrow> (\<exists>n' < n. (n', e) \<in> set (matchPairs r))))) \<and>
         (parseDate (date a) = Some x \<and> parseDate (date b) = Some y \<and> kind a \<noteq> kind b \<and>
          \<bar>amount a\<bar> = \<bar>amount b\<bar> \<and> currency a = currency b \<longrightarrow>
            (\<bar>x - y\<bar> = 4 * 86400000 \<longrightarrow>
               detectCrossBankTransfers parseDate [a] [b] newSource existingSource
                 = Inr \<lparr> newIndices = [0], existingIndices = [0], matchPairs = [(0, 0)] \<rparr>) \<and>
            (\<bar>x - y\<bar> = 5 * 86400000 \<longrightarrow>
               detectCrossBankTransfers parseDate [a] [b] newSource existingSource
                 = Inr \<lparr> newIndices = [], existingIndices = [], matchPairs = [] \<rparr>))"
proof (rule conjI)
  let ?elig = "\<lambda>n e. crossEligible parseDate (new ! n) (ex ! e)"
  let ?ps = "greedy ?elig (length ex) [0..<length new] []"
  let ?r = "\<lparr> newIndices = map fst ?ps, existingIndices = map snd ?ps, matchPairs = ?ps \<rparr>"
  from assms have "detectCrossBankTransfers parseDate new ex newSource existingSource = Inr ?r"
    by (simp add: detectCrossBankTransfers_greedy Let_def)
  with matching_properties [where elig = ?elig and nE = "length ex" and nN = "length new"]
  show "\<exists>r. detectCrossBankTransfers parseDate new ex newSource existingSource = Inr r \<and>
            newIndices r = map fst (matchPairs r) \<and> existingIndices r = map snd (matchPairs r) \<and>
            sorted_wrt (<) (newIndices r) \<and> distinct (existingIndices r) \<and>
            (\<forall>(n, e) \<in> set (matchPairs r).
               n < length new \<and> e < length ex \<and> crossEligible parseDate (new ! n) (ex ! e) \<and>
               (\<forall>e' < e. crossEligible parseDate (new ! n) (ex ! e')
                  \<longrightarrow> (\<exists>n' < n. (n', e') \<in> set (matchPairs r)))) \<and>
            (\<forall>n < length new. n \<notin> set (newIndices r) \<longrightarrow>
               (\<forall>e < length ex. crossEligible parseDate (new ! n) (ex ! e)
                  \<longrightarrow> (\<exists>n' < n. (n', e) \<in> set (matchPairs r))))"
    by (intro exI [of _ ?r]) simp
next
  show "parseDate (date a) = Some x \<and> parseDate (date b) = Some y \<and> kind a \<noteq> kind b \<and>
          \<bar>amount a\<bar> = \<bar>amount b\<bar> \<and> currency a = currency b \<longrightarrow>
            (\<bar>x - y\<bar> = 4 * 86400000 \<longrightarrow>
               detectCrossBankTransfers parseDate [a] [b] newSource existingSource
                 = Inr \<lparr> newIndices = [0], existingIndices = [0], matchPairs = [(0, 0)] \<rparr>) \<and>
            (\<bar>x - y\<bar> = 5 * 86400000 \<longrightarrow>
               detectCrossBankTransfers parseDate [a] [b] newSource existingSource
                 = Inr \<lparr> newIndices = [], existingIndices = [], matchPairs = [] \<rparr>)"
  proof (intro impI, elim conjE)
    assume h: "parseDate (date a) = Some x" "parseDate (date b) = Some y" "kind a \<noteq> kind b"
      "\<bar>amount a\<bar> = \<bar>amount b\<bar>" "currency a = currency b"
    then have "detectCrossBankTransfers parseDate [a] [b] newSource existingSource
        = Inr (if \<bar>x - y\<bar> \<le> 4 * 86400000
               then \<lparr> newIndices = [0], existingIndices = [0], matchPairs = [(0, 0)] \<rparr>
               else \<lparr> newIndices = [], existingIndices = [], matchPairs = [] \<rparr>)"
      by (simp add: detectCrossBankTransfers_greedy greedy_single crossEligible_def)
    then show "(\<bar>x - y\<bar> = 4 * 86400000 \<longrightarrow>
               detectCrossBankTransfers parseDate [a] [b] newSource existingSource
                 = Inr \<lparr> newIndices = [0], existingIndices = [0], matchPairs = [(0, 0)] \<rparr>) \<and>
            (\<bar>x - y\<bar> = 5 * 86400000 \<longrightarrow>
               detectCrossBankTransfers parseDate [a] [b] newSource existingSource
                 = Inr \<lparr> newIndices = [], existingIndices = [], matchPairs = [] \<rparr>)"
      by simp
  qed
qed

definition topUp :: ParsedTransaction where
  "topUp = tx ''Top-up'' 5000 expense ''2024-03-01T00:00:00.000Z''"

definition lodgedAfter4 :: ParsedTransaction where
  "lodgedAfter4 = tx ''Lodgement'' 5000 income ''2024-03-05T00:00:00.000Z''"

definition lodgedAfter5 :: ParsedTransaction where
  "lodgedAfter5 = tx ''Lodgement'' 5000 income ''2024-03-06T00:00:00.000Z''"

theorem cross_bank_matching_witness:
  "sampleClock (date topUp) = Some 1709251200000 \<and>
   sampleClock (date lodgedAfter4) = Some 1709596800000 \<and>
   sampleClock (date lodgedAfter5) = Some 1709683200000 \<and>
   \<bar>1709251200000 - 1709596800000\<bar> = (4 * 86400000 :: int) \<and>
   detectCrossBankTransfers sampleClock [topUp] [lodgedAfter4] revolut_import aib_import
     = Inr \<lparr> newIndices = [0], existingIndices = [0], matchPairs = [(0, 0)] \<rparr> \<and>
   \<bar>1709251200000 - 1709683200000\<bar> = (5 * 86400000 :: int) \<and>
   detectCrossBankTransfers sampleClock [topUp] [lodgedAfter5] revolut_import aib_import
     = Inr \<lparr> newIndices = [], existingIndices = [], matchPairs = [] \<rparr>"
proof -
  have valid: "\<forall>t \<in> set [topUp] \<union> set [lodgedAfter4]. sampleClock (date t) \<noteq> None"
    by code_simp
  have h4: "sampleClock (date topUp) = Some 1709251200000 \<and>
      sampleClock (date lodgedAfter4) = Some 1709596800000 \<and>
      kind topUp \<noteq> kind lodgedAfter4 \<and> \<bar>amount topUp\<bar> = \<bar>amount lodgedAfter4\<bar> \<and>
      currency topUp = currency lodgedAfter4"
    by code_simp
  have h5: "sampleClock (date topUp) = Some 1709251200000 \<and>
      sampleClock (date lodgedAfter5) = Some 1709683200000 \<and>
      kind topUp \<noteq> kind lodgedAfter5 \<and> \<bar>amount topUp\<bar> = \<bar>amount lodgedAfter5\<bar> \<and>
      currency topUp = currency lodgedAfter5"
    by code_simp
  have d4: "\<bar>1709251200000 - 1709596800000\<bar> = (4 * 86400000 :: int)" by simp
  have d5: "\<bar>1709251200000 - 1709683200000\<bar> = (5 * 86400000 :: int)" by simp
  note T4 = conjunct2 [OF cross_bank_matching [OF valid,
        where a = topUp and b = lodgedAfter4 and x = 1709251200000 and y = 1709596800000
          and newSource = revolut_import and existingSource = aib_import], rule_format, OF h4]
  note T5 = conjunct2 [OF cross_bank_matching [OF valid,
        where a = topUp and b = lodgedAfter5 and x = 1709251200000 and y = 1709683200000
          and newSource = revolut_import and existingSource = aib_import], rule_format, OF h5]
  from h4 h5 have "sampleClock (date topUp) = Some 1709251200000"
    and "sampleClock (date lodgedAfter4) = Some 1709596800000"
    and "sampleClock (date lodgedAfter5) = Some 1709683200000" by simp_all
  with conjunct1 [OF T4, rule_format, OF d4] conjunct2 [OF T5, rule_format, OF d5] d4 d5
  show ?thesis by (intro conjI)
qed

text \<open>
  C4.  With valid dates \<^verbatim>\<open>detectAibTransfers\<close> returns; a pair is made only of a new and an
  existing transaction that both carry the marker \<^verbatim>\<open>*MOBI\<close> and have the same UTC calendar
  day, absolute amount and currency and opposite kinds, the existing one being the first such
  not consumed by an earlier new transaction; no existing index is consumed twice; a marked
  new transaction stays unmatched only when every existing transaction eligible for it was
  consumed earlier.  One eligible new transaction against two eligible existing ones
  consumes the first and leaves the second unmatched.
\<close>

theorem aib_transfers_greedy:
  assumes "\<forall>t \<in> set new \<union> set ex. parseDate (date t) \<noteq> None"
  shows "(\<exists>r. detectAibTransfers parseDate new ex = Inr r \<and>
            newIndices r = map fst (matchPairs r) \<and> existingIndices r = map snd (matchPairs r) \<and>
            sorted_wrt (<) (newIndices r) \<and> distinct (existingIndices r) \<and>
            (\<forall>(n, e) \<in> set (matchPairs r).
               n < length new \<and> e < length ex \<and> aibEligible parseDate (new ! n) (ex ! e) \<and>
               (\<forall>e' < e. aibEligible parseDate (new ! n) (ex ! e')
                  \<longrightarrow> (\<exists>n' < n. (n', e') \<in> set (matchPairs r)))) \<and>
            (\<forall>n < length new. n \<notin> set (newIndices r) \<longrightarrow>
               (\<forall>e < length ex. aibEligible parseDate (new ! n) (ex ! e)
                  \<longrightarrow> (\<exists>n' < n. (n', e) \<in> set (matchPairs r))))) \<and>
         (aibEligible parseDate a b \<and> aibEligible parseDate a c \<longrightarrow>
            detectAibTransfers parseDate [a] [b, c]
              = Inr \<lparr> newIndices = [0], existingIndices = [0], matchPairs = [(0, 0)] \<rparr>)"
proof (rule conjI)
  let ?elig = "\<lambda>n e. aibEligible parseDate (new ! n) (ex ! e)"
  let ?ps = "greedy ?elig (length ex) [0..<length new] []"
  let ?r = "\<lparr> newIndices = map fst ?ps, existingIndices = map snd ?ps, matchPairs = ?ps \<rparr>"
  from assms have "detectAibTransfers parseDate new ex = Inr ?r"
    by (simp add: detectAibTransfers_greedy Let_def)
  with matching_properties [where elig = ?elig and nE = "length ex" and nN = "length new"]
  show "\<exists>r. detectAibTransfers parseDate new ex = Inr r \<and>
            newIndices r = map fst (matchPairs r) \<and> existingIndices r = map snd (matchPairs r) \<and>
            sorted_wrt (<) (newIndices r) \<and> distinct (existingIndices r) \<and>
            (\<forall>(n, e) \<in> set (matchPairs r).
               n < length new \<and> e < length ex \<and> aibEligible parseDate (new ! n) (ex ! e) \<and>
               (\<forall>e' < e. aibEligible parseDate (new ! n) (ex ! e')
                  \<longrightarrow> (\<exists>n' < n. (n', e') \<in> set (matchPairs r)))) \<and>
            (\<forall>n < length new. n \<notin> set (newIndices r) \<longrightarrow>
               (\<forall>e < length ex. aibEligible parseDate (new ! n) (ex ! e)
                  \<longrightarrow> (\<exists>n' < n. (n', e) \<in> set (matchPairs r))))"
    by (intro exI [of _ ?r]) simp
next
  show "aibEligible parseDate a b \<and> aibEligible parseDate a c \<longrightarrow>
            detectAibTransfers parseDate [a] [b, c]
              = Inr \<lparr> newIndices = [0], existingIndices = [0], matchPairs = [(0, 0)] \<rparr>"
  proof (intro impI, elim conjE)
    assume h: "aibEligible parseDate a b" "aibEligible parseDate a c"
    then have "parseDate (date a) \<noteq> None" "parseDate (date b) \<noteq> None"
      "parseDate (date c) \<noteq> None"
      by (auto simp add: aibEligible_def split: option.splits)
    with h show "detectAibTransfers parseDate [a] [b, c]
              = Inr \<lparr> newIndices = [0], existingIndices = [0], matchPairs = [(0, 0)] \<rparr>"
      by (simp add: detectAibTransfers_greedy greedy_single upt_conv_Cons)
  qed
qed

definition toSavings :: ParsedTransaction where
  "toSavings = tx ''*MOBI To savings'' 5000 expense ''2024-03-01T18:30:00.000Z''"

definition fromCurrent :: ParsedTransaction where
  "fromCurrent = tx ''*MOBI From current'' 5000 income ''2024-03-01T00:00:00.000Z''"

theorem aib_transfers_greedy_witness:
  "sampleClock (date toSavings) \<noteq> None \<and> sampleClock (date fromCurrent) \<noteq> None \<and>
   aibEligible sampleClock toSavings fromCurrent \<and>
   detectAibTransfers sampleClock [toSavings] [fromCurrent, fromCurrent]
     = Inr \<lparr> newIndices = [0], existingIndices = [0], matchPairs = [(0, 0)] \<rparr>"
proof -
  have valid: "\<forall>t \<in> set [toSavings] \<union> set [fromCurrent, fromCurrent].
      sampleClock (date t) \<noteq> None"
    by code_simp
  have el: "aibEligible sampleClock toSavings fromCurrent" by code_simp
  note T = conjunct2 [OF aib_transfers_greedy [OF valid,
        where a = toSavings and b = fromCurrent and c = fromCurrent], rule_format]
  from valid have "sampleClock (date toSavings) \<noteq> None"
    and "sampleClock (date fromCurrent) \<noteq> None" by simp_all
  with T [OF conjI [OF el el]] el show ?thesis by (intro conjI)
qed

text \<open>
  C10.  The two provider labels are arguments of \<^verbatim>\<open>detectCrossBankTransfers\<close> that its body
  never reads: any two choices of labels give the same result, and a pair is matched also
  when both labels name the same provider.
\<close>

theorem cross_bank_labels_ignored:
  "detectCrossBankTransfers parseDate new ex newSource existingSource
     = detectCrossBankTransfers parseDate new ex newSource' existingSource' \<and>
   detectCrossBankTransfers sampleClock
       [tx ''Top-up'' 5000 expense ''2024-03-01T00:00:00.000Z'']
       [tx ''Lodgement'' 5000 income ''2024-03-05T00:00:00.000Z''] aib_import aib_import
     = Inr \<lparr> newIndices = [0], existingIndices = [0], matchPairs = [(0, 0)] \<rparr>"
proof
  show "detectCrossBankTransfers parseDate new ex newSource existingSource
     = detectCrossBankTransfers parseDate new ex newSource' existingSource'"
    by (simp add: detectCrossBankTransfers_def)
  show "detectCrossBankTransfers sampleClock
       [tx ''Top-up'' 5000 expense ''2024-03-01T00:00:00.000Z'']
       [tx ''Lodgement'' 5000 income ''2024-03-05T00:00:00.000Z''] aib_import aib_import
     = Inr \<lparr> newIndices = [0], existingIndices = [0], matchPairs = [(0, 0)] \<rparr>"
    by code_simp
qed


section \<open>Same-batch transfer pairs (csvParser.ts)\<close>

text \<open>
  The result of \<^verbatim>\<open>detectTransferPairs\<close>; a pair \<^verbatim>\<open>{ index1, index2 }\<close> is the pair
  \<open>(index1, index2)\<close>.
\<close>

record TransferPairs =
  indices :: "nat list"
  pairs :: "(nat \<times> nat) list"

text \<open>
  The key \<^verbatim>\<open>`${dateKey}_${tx.amount}_${tx.currency}`\<close>; building it throws on an invalid
  date.
\<close>

definition keyText :: "int \<Rightarrow> ParsedTransaction \<Rightarrow> string" where
  "keyText ms t = isoDay ms @ ''_'' @ showInt (amount t) @ ''_'' @ currency t"

definition transferKey :: "clock \<Rightarrow> ParsedTransaction \<Rightarrow> error + string" where
  "transferKey parseDate t =
     (case parseDate (date t) of None \<Rightarrow> Inl rangeError | Some ms \<Rightarrow> Inr (keyText ms t))"

text \<open>
  The map \<^verbatim>\<open>potentialMatches\<close>, as the list of its entries in insertion order:
  \<^verbatim>\<open>if (!m.has(key)) m.set(key, []); m.get(key).push(index)\<close>.
\<close>

fun addToGroup :: "(string \<times> nat list) list \<Rightarrow> string \<Rightarrow> nat \<Rightarrow> (string \<times> nat list) list" where
  "addToGroup [] key index = [(key, [index])]"
| "addToGroup ((k, is) # rest) key index =
     (if k = key then (k, is @ [index]) # rest else (k, is) # addToGroup rest key index)"

fun groupLoop :: "clock \<Rightarrow> (nat \<times> ParsedTransaction) list \<Rightarrow> (string \<times> nat list) list
    \<Rightarrow> error + (string \<times> nat list) list" where
  "groupLoop parseDate [] potentialMatches = Inr potentialMatches"
| "groupLoop parseDate ((index, t) # rest) potentialMatches =
     (case transferKey parseDate t of
        Inl e \<Rightarrow> Inl e
      | Inr key \<Rightarrow> groupLoop parseDate rest (addToGroup potentialMatches key index))"

text \<open>
  \<^verbatim>\<open>daysDiff <= 1\<close>, where \<^verbatim>\<open>daysDiff\<close> is \<^verbatim>\<open>NaN\<close> (and the comparison false) when a date
  is invalid.
\<close>

definition withinOneDay :: "clock \<Rightarrow> ParsedTransaction \<Rightarrow> ParsedTransaction \<Rightarrow> bool" where
  "withinOneDay parseDate tx1 tx2 =
     (case parseDate (date tx1) of
        None \<Rightarrow> False
      | Some date1 \<Rightarrow>
          (case parseDate (date tx2) of
             None \<Rightarrow> False
           | Some date2 \<Rightarrow> of_int \<bar>date1 - date2\<bar> / msPerDay \<le> 1))"

text \<open>
  The two nested \<^verbatim>\<open>for\<close> loops over one group: \<open>a\<close> is \<^verbatim>\<open>indices[i]\<close> and the list
  argument of the inner loop holds \<^verbatim>\<open>indices[j]\<close> for \<open>j > i\<close>.
\<close>

fun innerLoop :: "clock \<Rightarrow> ParsedTransaction list \<Rightarrow> nat \<Rightarrow> nat list
    \<Rightarrow> nat list \<times> (nat \<times> nat) list \<Rightarrow> nat list \<times> (nat \<times> nat) list" where
  "innerLoop parseDate transactions a [] st = st"
| "innerLoop parseDate transactions a (b # bs) (transferIndices, transferPairs) =
     innerLoop parseDate transactions a bs
       (if kind (transactions ! a) \<noteq> kind (transactions ! b) \<and>
           withinOneDay parseDate (transactions ! a) (transactions ! b)
        then (setAdd (setAdd transferIndices a) b, transferPairs @ [(a, b), (a, b)])
        else (transferIndices, transferPairs))"

fun outerLoop :: "clock \<Rightarrow> ParsedTransaction list \<Rightarrow> nat list
    \<Rightarrow> nat list \<times> (nat \<times> nat) list \<Rightarrow> nat list \<times> (nat \<times> nat) list" where
  "outerLoop parseDate transactions [] st = st"
| "outerLoop parseDate transactions (a # rest) st =
     outerLoop parseDate transactions rest (innerLoop parseDate transactions a rest st)"

text \<open>The \<^verbatim>\<open>forEach\<close> over the groups, which skips a group of fewer than two indices.\<close>

fun groupsLoop :: "clock \<Rightarrow> ParsedTransaction list \<Rightarrow> (string \<times> nat list) list
    \<Rightarrow> nat list \<times> (nat \<times> nat) list \<Rightarrow> nat list \<times> (nat \<times> nat) list" where
  "groupsLoop parseDate transactions [] st = st"
| "groupsLoop parseDate transactions ((key, is) # groups) st =
     groupsLoop parseDate transactions groups
       (if length is < 2 then st else outerLoop parseDate transactions is st)"

definition detectTransferPairs :: "clock \<Rightarrow> ParsedTransaction list \<Rightarrow> error + TransferPairs" where
  "detectTransferPairs parseDate transactions =
     (case groupLoop parseDate (enumerate 0 transactions) [] of
        Inl e \<Rightarrow> Inl e
      | Inr potentialMatches \<Rightarrow>
          (case groupsLoop parseDate transactions potentialMatches ([], []) of
             (transferIndices, transferPairs) \<Rightarrow>
               Inr \<lparr> indices = transferIndices, pairs = transferPairs \<rparr>))"

lemma showInt_no_underscore: "CHR ''_'' \<notin> set (showInt i)"
  by (simp add: showInt_def showDigits_no_sep)

lemma showInt_inj: "showInt i = showInt j \<Longrightarrow> i = j"
proof -
  have neg: "CHR ''-'' # showDigits a \<noteq> showDigits b" for a b
  proof
    assume "CHR ''-'' # showDigits a = showDigits b"
    then have "CHR ''-'' \<in> set (showDigits b)" by (metis list.set_intros(1))
    with showDigits_no_sep(3) show False by blast
  qed
  assume eq: "showInt i = showInt j"
  show "i = j"
  proof (cases "i < 0"; cases "j < 0")
    assume "i < 0" "j < 0"
    with eq have "showDigits (- i) = showDigits (- j)" by (simp add: showInt_def)
    with \<open>i < 0\<close> \<open>j < 0\<close> have "- i = - j" by (intro showDigits_inj) simp_all
    then show ?thesis by simp
  next
    assume "i < 0" "\<not> j < 0"
    with eq neg show ?thesis by (simp add: showInt_def)
  next
    assume "\<not> i < 0" "j < 0"
    with eq neg [of "- j" i] show ?thesis by (simp add: showInt_def)
  next
    assume "\<not> i < 0" "\<not> j < 0"
    with eq show ?thesis by (intro showDigits_inj) (simp_all add: showInt_def)
  qed
qed

lemma keyText_eq_iff:
  "keyText x a = keyText y b \<longleftrightarrow>
     isoDay x = isoDay y \<and> amount a = amount b \<and> currency a = currency b"
proof
  assume "keyText x a = keyText y b"
  then have eq: "isoDay x @ CHR ''_'' # (showInt (amount a) @ CHR ''_'' # currency a)
      = isoDay y @ CHR ''_'' # (showInt (amount b) @ CHR ''_'' # currency b)"
    by (simp add: keyText_def)
  from split_at_first [OF isoDay_no_sep(2) isoDay_no_sep(2) eq]
  have d: "isoDay x = isoDay y"
    and rest: "showInt (amount a) @ CHR ''_'' # currency a = showInt (amount b) @ CHR ''_'' # currency b"
    by simp_all
  from split_at_first [OF showInt_no_underscore showInt_no_underscore rest]
  have "showInt (amount a) = showInt (amount b)" and "currency a = currency b" by simp_all
  with d show "isoDay x = isoDay y \<and> amount a = amount b \<and> currency a = currency b"
    by (auto dest: showInt_inj)
next
  assume "isoDay x = isoDay y \<and> amount a = amount b \<and> currency a = currency b"
  then show "keyText x a = keyText y b" by (simp add: keyText_def)
qed

text \<open>
  The key of the transaction at an index, and what the first loop leaves in the map: one
  entry per key, holding the indices with that key in increasing order.
\<close>

definition keyAt :: "clock \<Rightarrow> ParsedTransaction list \<Rightarrow> nat \<Rightarrow> string" where
  "keyAt parseDate txs i =
     (case parseDate (date (txs ! i)) of None \<Rightarrow> [] | Some ms \<Rightarrow> keyText ms (txs ! i))"

lemma groupLoop_fold:
  assumes valid: "\<forall>t \<in> set txs. parseDate (date t) \<noteq> None"
  shows "k \<le> length txs \<Longrightarrow>
         groupLoop parseDate (enumerate k (drop k txs)) pm
           = Inr (foldl (\<lambda>pm i. addToGroup pm (keyAt parseDate txs i) i) pm [k..<length txs])"
proof (induction "length txs - k" arbitrary: k pm)
  case 0
  then show ?case by simp
next
  case (Suc d)
  then have lt: "k < length txs" and d: "d = length txs - Suc k" and le: "Suc k \<le> length txs"
    by arith+
  have dr: "drop k txs = txs ! k # drop (Suc k) txs"
    using lt by (simp add: Cons_nth_drop_Suc)
  have upt: "[k..<length txs] = k # [Suc k..<length txs]"
    using lt by (simp add: upt_conv_Cons)
  from valid lt obtain ms where ms: "parseDate (date (txs ! k)) = Some ms"
    by (metis nth_mem option.exhaust)
  then have key: "transferKey parseDate (txs ! k) = Inr (keyAt parseDate txs k)"
    by (simp add: transferKey_def keyAt_def)
  from Suc.hyps(1) [OF d le] key show ?case
    by (simp add: dr upt)
qed

definition grouped :: "(nat \<Rightarrow> string) \<Rightarrow> nat \<Rightarrow> (string \<times> nat list) list \<Rightarrow> bool" where
  "grouped ks n pm =
     (distinct (map fst pm) \<and>
      (\<forall>(k, is) \<in> set pm. is = filter (\<lambda>i. ks i = k) [0..<n] \<and> is \<noteq> []) \<and>
      (\<forall>i < n. ks i \<in> fst ` set pm))"

lemma addToGroup_absent:
  "key \<notin> fst ` set pm \<Longrightarrow> addToGroup pm key i = pm @ [(key, [i])]"
  by (induction pm) auto

lemma addToGroup_present:
  "distinct (map fst pm) \<Longrightarrow> key \<in> fst ` set pm \<Longrightarrow>
     addToGroup pm key i = map (\<lambda>(k, is). if k = key then (k, is @ [i]) else (k, is)) pm"
proof (induction pm)
  case Nil
  then show ?case by simp
next
  case (Cons g pm)
  obtain k "is" where g: "g = (k, is)" by (cases g)
  show ?case
  proof (cases "k = key")
    case True
    with Cons.prems g have "key \<notin> fst ` set pm" by auto
    then have "map (\<lambda>(k, is). if k = key then (k, is @ [i]) else (k, is)) pm = pm"
      by (intro map_idI) force
    with True g show ?thesis by simp
  next
    case False
    with Cons g show ?thesis by auto
  qed
qed

lemma grouped_step:
  assumes "grouped ks n pm"
  shows "grouped ks (Suc n) (addToGroup pm (ks n) n)"
proof (cases "ks n \<in> fst ` set pm")
  case False
  then have add: "addToGroup pm (ks n) n = pm @ [(ks n, [n])]" by (rule addToGroup_absent)
  from assms False have none: "\<forall>i < n. ks i \<noteq> ks n" unfolding grouped_def by metis
  then have "filter (\<lambda>i. ks i = ks n) [0..<n] = []" by (auto simp add: filter_empty_conv)
  with assms False show ?thesis
    unfolding add grouped_def by (auto simp add: less_Suc_eq)
next
  case True
  from assms have dist: "distinct (map fst pm)" by (simp add: grouped_def)
  note add = addToGroup_present [OF dist True, of n]
  have fst_same: "map fst (map (\<lambda>(k, is). if k = ks n then (k, is @ [n]) else (k, is)) pm) = map fst pm"
    by (induction pm) auto
  have 1: "distinct (map fst (addToGroup pm (ks n) n))"
    unfolding add fst_same by (rule dist)
  have 2: "\<forall>(k, is) \<in> set (addToGroup pm (ks n) n).
      is = filter (\<lambda>i. ks i = k) [0..<Suc n] \<and> is \<noteq> []"
  proof (clarify)
    fix k "is" assume "(k, is) \<in> set (addToGroup pm (ks n) n)"
    then obtain is0 where m: "(k, is0) \<in> set pm"
      and "is": "is = (if k = ks n then is0 @ [n] else is0)"
      unfolding add by (auto split: if_splits)
    from assms m have is0: "is0 = filter (\<lambda>i. ks i = k) [0..<n]" "is0 \<noteq> []"
      unfolding grouped_def by auto
    show "is = filter (\<lambda>i. ks i = k) [0..<Suc n] \<and> is \<noteq> []"
      using "is" is0 by auto
  qed
  have "fst ` set (addToGroup pm (ks n) n) = fst ` set pm"
    using fst_same unfolding add by (metis set_map)
  with assms True have 3: "\<forall>i < Suc n. ks i \<in> fst ` set (addToGroup pm (ks n) n)"
    unfolding grouped_def by (auto simp add: less_Suc_eq)
  from 1 2 3 show ?thesis unfolding grouped_def by blast
qed

lemma grouped_fold:
  "grouped ks n (foldl (\<lambda>pm i. addToGroup pm (ks i) i) [] [0..<n])"
proof (induction n)
  case 0
  show ?case by (simp add: grouped_def)
next
  case (Suc n)
  from grouped_step [OF Suc] show ?case by simp
qed

subsection \<open>What the loops compute\<close>

text \<open>
  The pairs pushed for one index against the indices after it, and for a whole group; the
  indices a list of pairs touches; the test of the innermost \<^verbatim>\<open>if\<close>s.
\<close>

definition pairsFrom :: "(nat \<Rightarrow> nat \<Rightarrow> bool) \<Rightarrow> nat \<Rightarrow> nat list \<Rightarrow> (nat \<times> nat) list" where
  "pairsFrom c a bs = concat (map (\<lambda>b. if c a b then [(a, b), (a, b)] else []) bs)"

fun allPairs :: "(nat \<Rightarrow> nat \<Rightarrow> bool) \<Rightarrow> nat list \<Rightarrow> (nat \<times> nat) list" where
  "allPairs c [] = []"
| "allPairs c (a # rest) = pairsFrom c a rest @ allPairs c rest"

definition touched :: "(nat \<times> nat) list \<Rightarrow> nat set" where
  "touched ps = fst ` set ps \<union> snd ` set ps"

definition opposite :: "clock \<Rightarrow> ParsedTransaction list \<Rightarrow> nat \<Rightarrow> nat \<Rightarrow> bool" where
  "opposite parseDate txs a b =
     (kind (txs ! a) \<noteq> kind (txs ! b) \<and> withinOneDay parseDate (txs ! a) (txs ! b))"

lemma touched_append: "touched (ps @ qs) = touched ps \<union> touched qs"
  by (auto simp add: touched_def)

lemma set_setAdd: "set (setAdd s x) = insert x (set s)"
  by (auto simp add: setAdd_def)

lemma distinct_setAdd: "distinct s \<Longrightarrow> distinct (setAdd s x)"
  by (simp add: setAdd_def)

lemma innerLoop_result:
  "innerLoop parseDate txs a bs (ix, ps) = (ix', ps') \<Longrightarrow>
     ps' = ps @ pairsFrom (opposite parseDate txs) a bs \<and>
     set ix' = set ix \<union> touched (pairsFrom (opposite parseDate txs) a bs) \<and>
     (distinct ix \<longrightarrow> distinct ix')"
proof (induction bs arbitrary: ix ps)
  case Nil
  then show ?case by (simp add: pairsFrom_def touched_def)
next
  case (Cons b bs)
  show ?case
  proof (cases "opposite parseDate txs a b")
    case True
    with Cons.prems have "innerLoop parseDate txs a bs
        (setAdd (setAdd ix a) b, ps @ [(a, b), (a, b)]) = (ix', ps')"
      by (simp add: opposite_def)
    from Cons.IH [OF this] True show ?thesis
      by (auto simp add: pairsFrom_def touched_def set_setAdd distinct_setAdd)
  next
    case False
    with Cons.prems have "innerLoop parseDate txs a bs (ix, ps) = (ix', ps')"
      by (auto simp add: opposite_def)
    from Cons.IH [OF this] False show ?thesis
      by (auto simp add: pairsFrom_def touched_def)
  qed
qed

lemma outerLoop_result:
  "outerLoop parseDate txs is (ix, ps) = (ix', ps') \<Longrightarrow>
     ps' = ps @ allPairs (opposite parseDate txs) is \<and>
     set ix' = set ix \<union> touched (allPairs (opposite parseDate txs) is) \<and>
     (distinct ix \<longrightarrow> distinct ix')"
proof (induction "is" arbitrary: ix ps)
  case Nil
  then show ?case by (simp add: touched_def)
next
  case (Cons a rest)
  obtain ix1 ps1 where inner: "innerLoop parseDate txs a rest (ix, ps) = (ix1, ps1)"
    by (cases "innerLoop parseDate txs a rest (ix, ps)")
  with Cons.prems have "outerLoop parseDate txs rest (ix1, ps1) = (ix', ps')" by simp
  from Cons.IH [OF this] innerLoop_result [OF inner] show ?case
    by (auto simp add: touched_append)
qed

lemma allPairs_short: "length is < 2 \<Longrightarrow> allPairs c is = []"
  by (cases "is"; cases "tl is") (auto simp add: pairsFrom_def)

lemma groupsLoop_result:
  "groupsLoop parseDate txs pm (ix, ps) = (ix', ps') \<Longrightarrow>
     ps' = ps @ concat (map (\<lambda>(k, is). allPairs (opposite parseDate txs) is) pm) \<and>
     set ix' = set ix \<union> touched (concat (map (\<lambda>(k, is). allPairs (opposite parseDate txs) is) pm)) \<and>
     (distinct ix \<longrightarrow> distinct ix')"
proof (induction pm arbitrary: ix ps)
  case Nil
  then show ?case by (simp add: touched_def)
next
  case (Cons g pm)
  obtain k "is" where g: "g = (k, is)" by (cases g)
  show ?case
  proof (cases "length is < 2")
    case True
    with Cons.prems g have "groupsLoop parseDate txs pm (ix, ps) = (ix', ps')" by simp
    from Cons.IH [OF this] allPairs_short [OF True] g show ?thesis by simp
  next
    case False
    obtain ix1 ps1 where outer: "outerLoop parseDate txs is (ix, ps) = (ix1, ps1)"
      by (cases "outerLoop parseDate txs is (ix, ps)")
    with Cons.prems g False have "groupsLoop parseDate txs pm (ix1, ps1) = (ix', ps')" by simp
    from Cons.IH [OF this] outerLoop_result [OF outer] g show ?thesis
      by (auto simp add: touched_append)
  qed
qed

lemma count_pairsFrom:
  "count_list (pairsFrom c a bs) (x, y) = (if x = a \<and> c a y then 2 * count_list bs y else 0)"
  by (induction bs) (auto simp add: pairsFrom_def)

lemma count_list_distinct: "distinct xs \<Longrightarrow> count_list xs y = (if y \<in> set xs then 1 else 0)"
  by (induction xs) auto

lemma strictly_sorted_distinct: "sorted_wrt (<) (xs :: nat list) \<Longrightarrow> distinct xs"
  by (induction xs) auto

lemma count_allPairs:
  "sorted_wrt (<) is \<Longrightarrow>
     count_list (allPairs c is) (x, y) = (if x \<in> set is \<and> y \<in> set is \<and> x < y \<and> c x y then 2 else 0)"
proof (induction "is")
  case Nil
  then show ?case by simp
next
  case (Cons a rest)
  then have less: "\<forall>z \<in> set rest. a < z" and sorted: "sorted_wrt (<) rest" by simp_all
  from sorted have "distinct rest" by (rule strictly_sorted_distinct)
  then have cnt: "count_list rest y = (if y \<in> set rest then 1 else 0)"
    by (rule count_list_distinct)
  from Cons.IH [OF sorted] less show ?case
    by (auto simp add: count_pairsFrom cnt)
qed

lemma sum_list_key:
  "distinct (map fst pm) \<Longrightarrow>
     sum_list (map (\<lambda>(k, v). if k = k0 then C else 0) pm) = (if k0 \<in> fst ` set pm then (C::nat) else 0)"
  by (induction pm) (auto simp add: rev_image_eqI)

lemma count_groups:
  assumes "grouped ks n pm"
  shows "count_list (concat (map (\<lambda>(k, is). allPairs c is) pm)) (x, y)
           = (if x < y \<and> y < n \<and> ks x = ks y \<and> c x y then 2 else 0)"
proof -
  let ?C = "if x < y \<and> y < n \<and> ks x = ks y \<and> c x y then 2 else (0::nat)"
  have each: "count_list (allPairs c is) (x, y) = (if k = ks x then ?C else 0)"
    if "(k, is) \<in> set pm" for k "is"
  proof -
    from assms that have "is": "is = filter (\<lambda>i. ks i = k) [0..<n]"
      unfolding grouped_def by auto
    have "sorted_wrt (<) is" unfolding "is" by (rule sorted_wrt_filter) simp
    from count_allPairs [OF this, of c x y] show ?thesis
      unfolding "is" by auto
  qed
  have "count_list (concat (map (\<lambda>(k, is). allPairs c is) pm)) (x, y)
      = sum_list (map (\<lambda>(k, is). count_list (allPairs c is) (x, y)) pm)"
    by (simp add: count_list_concat comp_def case_prod_unfold)
  also have "\<dots> = sum_list (map (\<lambda>(k, is). if k = ks x then ?C else 0) pm)"
    by (rule arg_cong [where f = sum_list], rule map_cong) (auto simp add: each)
  also have "\<dots> = (if ks x \<in> fst ` set pm then ?C else 0)"
    using assms by (intro sum_list_key) (simp add: grouped_def)
  also have "\<dots> = ?C"
    using assms unfolding grouped_def by auto
  finally show ?thesis .
qed

subsection \<open>The pairing in the words of the specification\<close>

text \<open>
  Two transactions qualify as a transfer pair when they fall in the same group (same UTC
  calendar day, same amount, same currency), have different kinds and dates at most one day
  apart.
\<close>

definition transferPair :: "clock \<Rightarrow> ParsedTransaction \<Rightarrow> ParsedTransaction \<Rightarrow> bool" where
  "transferPair parseDate a b =
     (amount a = amount b \<and> currency a = currency b \<and> kind a \<noteq> kind b \<and>
      (case parseDate (date a) of
         None \<Rightarrow> False
       | Some x \<Rightarrow>
           (case parseDate (date b) of
              None \<Rightarrow> False
            | Some y \<Rightarrow> isoDay x = isoDay y \<and> \<bar>x - y\<bar> \<le> 86400000)))"

lemma one_day_apart: "of_int \<bar>x - y\<bar> / msPerDay \<le> 1 \<longleftrightarrow> \<bar>x - y\<bar> \<le> 86400000"
proof -
  have "(of_int \<bar>x - y\<bar> :: rat) / 86400000 \<le> 1 \<longleftrightarrow> (of_int \<bar>x - y\<bar> :: rat) \<le> 86400000"
    by (simp add: pos_divide_le_eq)
  also have "\<dots> \<longleftrightarrow> (of_int \<bar>x - y\<bar> :: rat) \<le> of_int 86400000" by simp
  also have "\<dots> \<longleftrightarrow> \<bar>x - y\<bar> \<le> 86400000" by (simp only: of_int_le_iff)
  finally show ?thesis by (simp add: msPerDay_def)
qed

lemma withinOneDay_iff:
  "parseDate (date a) = Some x \<Longrightarrow> parseDate (date b) = Some y \<Longrightarrow>
     withinOneDay parseDate a b \<longleftrightarrow> \<bar>x - y\<bar> \<le> 86400000"
  unfolding withinOneDay_def by (simp add: one_day_apart del: of_int_abs of_int_diff)

lemma same_day_close:
  fixes x y :: int
  assumes "x div 86400000 = y div 86400000"
  shows "\<bar>x - y\<bar> \<le> 86400000"
proof -
  have "x = 86400000 * (x div 86400000) + x mod 86400000"
    and "y = 86400000 * (y div 86400000) + y mod 86400000" by simp_all
  moreover have "0 \<le> x mod 86400000" "x mod 86400000 < 86400000"
    "0 \<le> y mod 86400000" "y mod 86400000 < 86400000" by simp_all
  ultimately show ?thesis using assms by linarith
qed

lemma transferPair_sym: "transferPair parseDate a b \<longleftrightarrow> transferPair parseDate b a"
  by (auto simp add: transferPair_def abs_minus_commute split: option.splits)

lemma keyAt_opposite:
  assumes "parseDate (date (txs ! i)) \<noteq> None" "parseDate (date (txs ! j)) \<noteq> None"
  shows "keyAt parseDate txs i = keyAt parseDate txs j \<and> opposite parseDate txs i j
           \<longleftrightarrow> transferPair parseDate (txs ! i) (txs ! j)"
proof -
  from assms obtain x y where x: "parseDate (date (txs ! i)) = Some x"
    and y: "parseDate (date (txs ! j)) = Some y" by auto
  show ?thesis
    unfolding keyAt_def opposite_def transferPair_def
    by (auto simp add: x y keyText_eq_iff withinOneDay_iff [OF x y])
qed

lemma groupLoop_invalid:
  "\<exists>p \<in> set ixs. parseDate (date (snd p)) = None \<Longrightarrow> groupLoop parseDate ixs pm = Inl rangeError"
proof (induction ixs arbitrary: pm)
  case Nil
  then show ?case by simp
next
  case (Cons p ixs)
  obtain i t where p: "p = (i, t)" by (cases p)
  show ?case
  proof (cases "parseDate (date t)")
    case None
    then show ?thesis by (simp add: p transferKey_def)
  next
    case (Some ms)
    with Cons.prems p have "\<exists>p \<in> set ixs. parseDate (date (snd p)) = None" by auto
    from Cons.IH [OF this] Some show ?thesis by (simp add: p transferKey_def)
  qed
qed

lemma detectTransferPairs_invalid:
  assumes "\<exists>t \<in> set txs. parseDate (date t) = None"
  shows "detectTransferPairs parseDate txs = Inl rangeError"
proof -
  from assms obtain t where "t \<in> set txs" "parseDate (date t) = None" by blast
  then obtain i where "i < length txs" "txs ! i = t" by (auto simp add: in_set_conv_nth)
  then have "(i, t) \<in> set (enumerate 0 txs)" by (auto simp add: in_set_enumerate_eq)
  with \<open>parseDate (date t) = None\<close>
  have "\<exists>p \<in> set (enumerate 0 txs). parseDate (date (snd p)) = None" by force
  from groupLoop_invalid [OF this] show ?thesis by (simp add: detectTransferPairs_def)
qed

lemma mem_count_list: "x \<in> set xs \<longleftrightarrow> count_list xs x \<noteq> 0"
  by (induction xs) auto

lemma detectTransferPairs_valid:
  assumes valid: "\<forall>t \<in> set txs. parseDate (date t) \<noteq> None"
  shows "\<exists>r. detectTransferPairs parseDate txs = Inr r \<and>
           (\<forall>i j. count_list (pairs r) (i, j)
              = (if i < j \<and> j < length txs \<and> transferPair parseDate (txs ! i) (txs ! j)
                 then 2 else 0)) \<and>
           distinct (indices r) \<and>
           set (indices r) = {i. i < length txs \<and>
              (\<exists>j < length txs. i \<noteq> j \<and> transferPair parseDate (txs ! i) (txs ! j))}"
proof -
  let ?ks = "keyAt parseDate txs"
  let ?n = "length txs"
  let ?pm = "foldl (\<lambda>pm i. addToGroup pm (?ks i) i) [] [0..<?n]"
  let ?ps = "concat (map (\<lambda>(k, is). allPairs (opposite parseDate txs) is) ?pm)"
  have gl: "groupLoop parseDate (enumerate 0 txs) [] = Inr ?pm"
    using groupLoop_fold [OF valid, of 0 "[]"] by simp
  have gr: "grouped ?ks ?n ?pm" by (rule grouped_fold)
  obtain ix ps where run: "groupsLoop parseDate txs ?pm ([], []) = (ix, ps)"
    by (cases "groupsLoop parseDate txs ?pm ([], [])")
  from groupsLoop_result [OF run]
  have ps: "ps = ?ps" and ix: "set ix = touched ?ps" and dist: "distinct ix" by simp_all
  have res: "detectTransferPairs parseDate txs = Inr \<lparr> indices = ix, pairs = ps \<rparr>"
    by (simp add: detectTransferPairs_def gl run)
  have cnt: "count_list ps (i, j)
      = (if i < j \<and> j < ?n \<and> transferPair parseDate (txs ! i) (txs ! j) then 2 else 0)" for i j
  proof (cases "i < j \<and> j < ?n")
    case True
    with valid have "parseDate (date (txs ! i)) \<noteq> None" "parseDate (date (txs ! j)) \<noteq> None"
      by simp_all
    from keyAt_opposite [OF this] True show ?thesis
      unfolding ps count_groups [OF gr] by auto
  next
    case False
    then show ?thesis unfolding ps count_groups [OF gr] by auto
  qed
  have mem: "(i, j) \<in> set ps \<longleftrightarrow> i < j \<and> j < ?n \<and> transferPair parseDate (txs ! i) (txs ! j)"
    for i j
    unfolding mem_count_list cnt by simp
  have "set ix = {i. \<exists>j. (i, j) \<in> set ps \<or> (j, i) \<in> set ps}"
    unfolding ix ps [symmetric] touched_def by force
  also have "\<dots> = {i. i < ?n \<and> (\<exists>j < ?n. i \<noteq> j \<and> transferPair parseDate (txs ! i) (txs ! j))}"
  proof (rule Collect_cong)
    fix i
    show "(\<exists>j. (i, j) \<in> set ps \<or> (j, i) \<in> set ps)
        \<longleftrightarrow> i < ?n \<and> (\<exists>j < ?n. i \<noteq> j \<and> transferPair parseDate (txs ! i) (txs ! j))"
    proof
      assume "\<exists>j. (i, j) \<in> set ps \<or> (j, i) \<in> set ps"
      then obtain j where "(i, j) \<in> set ps \<or> (j, i) \<in> set ps" ..
      then show "i < ?n \<and> (\<exists>j < ?n. i \<noteq> j \<and> transferPair parseDate (txs ! i) (txs ! j))"
      proof
        assume "(i, j) \<in> set ps"
        then have "i < j" "j < ?n" "transferPair parseDate (txs ! i) (txs ! j)"
          by (simp_all add: mem)
        then show ?thesis by (intro conjI exI [of _ j]) simp_all
      next
        assume "(j, i) \<in> set ps"
        then have "j < i" "i < ?n" "transferPair parseDate (txs ! j) (txs ! i)"
          by (simp_all add: mem)
        then show ?thesis
          using transferPair_sym [of parseDate "txs ! i" "txs ! j"]
          by (intro conjI exI [of _ j]) simp_all
      qed
    next
      assume "i < ?n \<and> (\<exists>j < ?n. i \<noteq> j \<and> transferPair parseDate (txs ! i) (txs ! j))"
      then obtain j where i: "i < ?n" and j: "j < ?n" "i \<noteq> j"
        and tp: "transferPair parseDate (txs ! i) (txs ! j)" by blast
      show "\<exists>j. (i, j) \<in> set ps \<or> (j, i) \<in> set ps"
      proof (cases "i < j")
        case True
        with j tp have "(i, j) \<in> set ps" by (simp add: mem)
        then show ?thesis by blast
      next
        case False
        with j have "j < i" by simp
        with i tp transferPair_sym [of parseDate "txs ! i" "txs ! j"]
        have "(j, i) \<in> set ps" by (simp add: mem)
        then show ?thesis by blast
      qed
    qed
  qed
  finally have ixs: "set ix = {i. i < ?n \<and>
      (\<exists>j < ?n. i \<noteq> j \<and> transferPair parseDate (txs ! i) (txs ! j))}" .
  show ?thesis
    by (rule exI [of _ "\<lparr> indices = ix, pairs = ps \<rparr>"]) (simp add: res cnt dist ixs)
qed

lemma detectTransferPairs_two:
  assumes x: "parseDate (date a) = Some x" and y: "parseDate (date b) = Some y"
    and day: "x div 86400000 = y div 86400000"
    and same: "amount a = amount b" "currency a = currency b" and opp: "kind a \<noteq> kind b"
  shows "detectTransferPairs parseDate [a, b] = Inr \<lparr> indices = [0, 1], pairs = [(0, 1), (0, 1)] \<rparr>"
proof -
  from day have iso: "isoDay x = isoDay y" by (simp add: isoDay_def)
  then have key: "keyText x a = keyText y b" using same by (simp add: keyText_eq_iff)
  have within: "withinOneDay parseDate a b"
    using same_day_close [OF day] by (simp add: withinOneDay_iff [OF x y])
  show ?thesis
    using opp within
    by (simp add: detectTransferPairs_def transferKey_def x y key setAdd_def)
qed

text \<open>
  C2.  \<^verbatim>\<open>detectTransferPairs\<close> throws exactly when some date is invalid.  Otherwise it
  returns, and for all indices \<open>i\<close>, \<open>j\<close> the pair \<open>(i, j)\<close> occurs in the returned list of pairs
  exactly twice when \<open>i < j\<close> and the two transactions have the same UTC calendar day, amount
  and currency, different kinds and dates at most one day apart, and does not occur
  otherwise; the returned index set holds exactly the indices that take part in such a pair.
  In particular two transactions on the same UTC day with the same amount and currency and
  opposite kinds give the index set \<open>{0, 1}\<close> and the one pair \<open>(0, 1)\<close>, listed twice.
\<close>

theorem same_batch_pairs:
  "(detectTransferPairs parseDate txs = Inl rangeError
      \<longleftrightarrow> (\<exists>t \<in> set txs. parseDate (date t) = None)) \<and>
   ((\<forall>t \<in> set txs. parseDate (date t) \<noteq> None) \<longrightarrow>
      (\<exists>r. detectTransferPairs parseDate txs = Inr r \<and>
         (\<forall>i j. count_list (pairs r) (i, j)
            = (if i < j \<and> j < length txs \<and> transferPair parseDate (txs ! i) (txs ! j)
               then 2 else 0)) \<and>
         distinct (indices r) \<and>
         set (indices r) = {i. i < length txs \<and>
            (\<exists>j < length txs. i \<noteq> j \<and> transferPair parseDate (txs ! i) (txs ! j))})) \<and>
   (parseDate (date a) = Some x \<and> parseDate (date b) = Some y \<and>
    x div 86400000 = y div 86400000 \<and>
    amount a = amount b \<and> currency a = currency b \<and> kind a \<noteq> kind b \<longrightarrow>
      detectTransferPairs parseDate [a, b]
        = Inr \<lparr> indices = [0, 1], pairs = [(0, 1), (0, 1)] \<rparr>)"
proof (intro conjI)
  show "detectTransferPairs parseDate txs = Inl rangeError
      \<longleftrightarrow> (\<exists>t \<in> set txs. parseDate (date t) = None)"
  proof
    assume inl: "detectTransferPairs parseDate txs = Inl rangeError"
    show "\<exists>t \<in> set txs. parseDate (date t) = None"
    proof (rule ccontr)
      assume "\<not> (\<exists>t \<in> set txs. parseDate (date t) = None)"
      then have "\<forall>t \<in> set txs. parseDate (date t) \<noteq> None" by simp
      from detectTransferPairs_valid [OF this] inl show False by auto
    qed
  next
    assume "\<exists>t \<in> set txs. parseDate (date t) = None"
    then show "detectTransferPairs parseDate txs = Inl rangeError"
      by (rule detectTransferPairs_invalid)
  qed
  show "(\<forall>t \<in> set txs. parseDate (date t) \<noteq> None) \<longrightarrow>
      (\<exists>r. detectTransferPairs parseDate txs = Inr r \<and>
         (\<forall>i j. count_list (pairs r) (i, j)
            = (if i < j \<and> j < length txs \<and> transferPair parseDate (txs ! i) (txs ! j)
               then 2 else 0)) \<and>
         distinct (indices r) \<and>
         set (indices r) = {i. i < length txs \<and>
            (\<exists>j < length txs. i \<noteq> j \<and> transferPair parseDate (txs ! i) (txs ! j))})"
    by (intro impI) (rule detectTransferPairs_valid)
  show "parseDate (date a) = Some x \<and> parseDate (date b) = Some y \<and>
    x div 86400000 = y div 86400000 \<and>
    amount a = amount b \<and> currency a = currency b \<and> kind a \<noteq> kind b \<longrightarrow>
      detectTransferPairs parseDate [a, b]
        = Inr \<lparr> indices = [0, 1], pairs = [(0, 1), (0, 1)] \<rparr>"
    by (intro impI, elim conjE) (rule detectTransferPairs_two)
qed

definition paidOut :: ParsedTransaction where
  "paidOut = tx ''To savings'' 5000 expense ''2024-03-01T00:00:00.000Z''"

definition paidIn :: ParsedTransaction where
  "paidIn = tx ''From current'' 5000 income ''2024-03-01T18:30:00.000Z''"

theorem same_batch_pairs_witness:
  "sampleClock (date paidOut) = Some 1709251200000 \<and>
   sampleClock (date paidIn) = Some 1709317800000 \<and>
   (1709251200000 :: int) div 86400000 = 1709317800000 div 86400000 \<and>
   amount paidOut = amount paidIn \<and> currency paidOut = currency paidIn \<and>
   kind paidOut \<noteq> kind paidIn \<and>
   detectTransferPairs sampleClock [paidOut, paidIn]
     = Inr \<lparr> indices = [0, 1], pairs = [(0, 1), (0, 1)] \<rparr> \<and>
   detectTransferPairs sampleClock [paidOut, tx ''Undated'' 5000 income ''yesterday'']
     = Inl rangeError"
proof -
  have h: "sampleClock (date paidOut) = Some 1709251200000 \<and>
      sampleClock (date paidIn) = Some 1709317800000 \<and>
      (1709251200000 :: int) div 86400000 = 1709317800000 div 86400000 \<and>
      amount paidOut = amount paidIn \<and> currency paidOut = currency paidIn \<and>
      kind paidOut \<noteq> kind paidIn"
    by code_simp
  have bad: "\<exists>t \<in> set [paidOut, tx ''Undated'' 5000 income ''yesterday''].
      sampleClock (date t) = None"
    by code_simp
  note T = same_batch_pairs [where parseDate = sampleClock and a = paidOut and b = paidIn
      and x = 1709251200000 and y = 1709317800000
      and txs = "[paidOut, tx ''Undated'' 5000 income ''yesterday'']"]
  from T have 1: "detectTransferPairs sampleClock [paidOut, tx ''Undated'' 5000 income ''yesterday'']
      = Inl rangeError" using bad by (simp only: simp_thms)
  from T have 2: "detectTransferPairs sampleClock [paidOut, paidIn]
     = Inr \<lparr> indices = [0, 1], pairs = [(0, 1), (0, 1)] \<rparr>"
    using h by blast
  from h 1 2 show ?thesis by (intro conjI) simp_all
qed

end
